theory Spec2Isabelle
  imports
    Complex_Main
    "HOL-Library.AList"
    "HOL-Library.Char_ord"
    "HOL-Library.List_Lexorder"
    "HOL-Library.Product_Lexorder"
begin

section \<open>The document store of quizzy: data model\<close>

text \<open>
  The development embeds the class \<open>IDBController\<close> (the IndexedDB controller of
  quizzy-common) and the function \<open>sanitizeIndices\<close> of the technical types.

  Conventions of the embedding.
  \<^item> An optional property of a TypeScript object is an \<open>option\<close>: \<open>None\<close> is
    \<open>undefined\<close> (a deleted or never assigned property).
  \<^item> A timestamp (\<open>Date.now()\<close>) is an \<open>int\<close>, the milliseconds of the wall clock. The
    clock is an input of every operation that reads it; nothing is assumed about it.
  \<^item> A \<open>Record<string, number>\<close> is a plain object: the association list of its own
    properties in insertion order, over the properties that every plain object inherits
    from \<open>Object.prototype\<close>. \<open>obj[k]\<close> is \<open>getProp\<close> and \<open>obj[k] = v\<close> is
    \<open>setProp\<close>; \<open>Object.keys\<close> and \<open>Object.entries\<close> enumerate the own properties as
    JavaScript does.
  \<^item> Stored numbers are real numbers: the rounding of IEEE doubles is not modelled. The
    non-finite values that the arithmetic can produce, by a division by zero or from an
    operand that is not a number, are modelled (type \<open>jsnum\<close>).
  \<^item> An object store of IndexedDB is the list of its records in ascending key order, the
    order in which a cursor visits them.
\<close>

type_synonym ID = string

text \<open>\<open>DatabaseIndexed & KeywordIndexed\<close>. Every further property of a stored object
  lives in the extension part of the record (\<open>doc.more\<close>). The field \<open>id\<close> is named
  \<open>docId\<close> and the field \<open>keywords\<close> is named \<open>keywordsList\<close>.\<close>

record doc =
  docId :: ID
  deleted :: "bool option"
  lastUpdate :: "int option"
  tags :: "string list option"
  categories :: "string list option"
  keywordsList :: "string list option"
  keywordsFrequency :: "(string \<times> real) list option"
  tagsFrequency :: "(string \<times> real) list option"
  keywordsUpdatedTime :: "int option"

datatype error = DataModified | ConstraintError

subsection \<open>JavaScript numbers that may be non-finite\<close>

text \<open>The result of an arithmetic expression on doubles: a finite number, an infinity or
  NaN. A zero divisor is taken to be \<open>+0\<close> (the averages and frequencies that reach
  the divisions below are never \<open>-0\<close>).\<close>

datatype jsnum = Fin real | PInf | NInf | NaN

fun jsadd :: "jsnum \<Rightarrow> jsnum \<Rightarrow> jsnum" where
  "jsadd (Fin x) (Fin y) = Fin (x + y)"
| "jsadd (Fin x) PInf = PInf"
| "jsadd (Fin x) NInf = NInf"
| "jsadd PInf (Fin y) = PInf"
| "jsadd PInf PInf = PInf"
| "jsadd NInf (Fin y) = NInf"
| "jsadd NInf NInf = NInf"
| "jsadd PInf NInf = NaN"
| "jsadd NInf PInf = NaN"
| "jsadd NaN y = NaN"
| "jsadd x NaN = NaN"

fun jsmul :: "jsnum \<Rightarrow> jsnum \<Rightarrow> jsnum" where
  "jsmul (Fin x) (Fin y) = Fin (x * y)"
| "jsmul (Fin x) PInf = (if x = 0 then NaN else if 0 < x then PInf else NInf)"
| "jsmul (Fin x) NInf = (if x = 0 then NaN else if 0 < x then NInf else PInf)"
| "jsmul PInf (Fin y) = (if y = 0 then NaN else if 0 < y then PInf else NInf)"
| "jsmul NInf (Fin y) = (if y = 0 then NaN else if 0 < y then NInf else PInf)"
| "jsmul PInf PInf = PInf"
| "jsmul NInf NInf = PInf"
| "jsmul PInf NInf = NInf"
| "jsmul NInf PInf = NInf"
| "jsmul NaN y = NaN"
| "jsmul x NaN = NaN"

fun jsdiv :: "jsnum \<Rightarrow> jsnum \<Rightarrow> jsnum" where
  "jsdiv (Fin x) (Fin y) =
     (if y \<noteq> 0 then Fin (x / y)
      else if x = 0 then NaN else if 0 < x then PInf else NInf)"
| "jsdiv (Fin x) PInf = Fin 0"
| "jsdiv (Fin x) NInf = Fin 0"
| "jsdiv PInf (Fin y) = (if 0 \<le> y then PInf else NInf)"
| "jsdiv NInf (Fin y) = (if 0 \<le> y then NInf else PInf)"
| "jsdiv PInf PInf = NaN"
| "jsdiv PInf NInf = NaN"
| "jsdiv NInf PInf = NaN"
| "jsdiv NInf NInf = NaN"
| "jsdiv NaN y = NaN"
| "jsdiv x NaN = NaN"

text \<open>\<open>x > t\<close> for a finite \<open>t\<close>: false on NaN.\<close>

fun jsgt :: "jsnum \<Rightarrow> real \<Rightarrow> bool" where
  "jsgt (Fin x) t = (t < x)"
| "jsgt PInf t = True"
| "jsgt NInf t = False"
| "jsgt NaN t = False"

subsection \<open>Plain objects used as dictionaries\<close>

text \<open>The objects that the source uses as dictionaries are created by \<open>{}\<close> or read back
  from the database, so their prototype is \<open>Object.prototype\<close>. The table lists the
  properties of \<open>Object.prototype\<close>, each with the text that the conversion of its value
  to a string gives: a built-in function as V8 prints it, and for \<open>__proto__\<close>, whose
  getter returns the prototype object, the text of that object.\<close>

definition Object_prototype :: "(string \<times> string) list" where
  "Object_prototype =
     [(''constructor'', ''function Object() { [native code] }''),
      (''__defineGetter__'', ''function __defineGetter__() { [native code] }''),
      (''__defineSetter__'', ''function __defineSetter__() { [native code] }''),
      (''hasOwnProperty'', ''function hasOwnProperty() { [native code] }''),
      (''__lookupGetter__'', ''function __lookupGetter__() { [native code] }''),
      (''__lookupSetter__'', ''function __lookupSetter__() { [native code] }''),
      (''isPrototypeOf'', ''function isPrototypeOf() { [native code] }''),
      (''propertyIsEnumerable'', ''function propertyIsEnumerable() { [native code] }''),
      (''toString'', ''function toString() { [native code] }''),
      (''valueOf'', ''function valueOf() { [native code] }''),
      (''__proto__'', ''[object Object]''),
      (''toLocaleString'', ''function toLocaleString() { [native code] }'')]"

text \<open>The value of \<open>obj[key]\<close>: the own property, else the inherited member (given by
  its text), else \<open>undefined\<close>.\<close>

datatype 'v slot = Own 'v | Inherited string | Undefined

definition getProp :: "(string \<times> 'v) list \<Rightarrow> string \<Rightarrow> 'v slot" where
  "getProp obj key =
     (case map_of obj key of
        Some v \<Rightarrow> Own v
      | None \<Rightarrow> (case map_of Object_prototype key of
                   Some text \<Rightarrow> Inherited text
                 | None \<Rightarrow> Undefined))"

text \<open>The assignment \<open>obj[key] = v\<close> of a number or a string. An existing own property
  keeps its place and a new one goes to the end. The key \<open>__proto__\<close> of an object
  without such an own property is the inherited setter, which ignores a value that is
  not an object: the assignment creates no property.\<close>

definition setProp :: "string \<Rightarrow> 'v \<Rightarrow> (string \<times> 'v) list \<Rightarrow> (string \<times> 'v) list" where
  "setProp key v obj =
     (if key = ''__proto__'' \<and> map_of obj key = None then obj else AList.update key v obj)"

definition isDigit :: "char \<Rightarrow> bool" where
  "isDigit c = (CHR ''0'' \<le> c \<and> c \<le> CHR ''9'')"

definition digitsValue :: "string \<Rightarrow> nat" where
  "digitsValue s = foldl (\<lambda>a c. 10 * a + (of_char c - 48)) 0 s"

text \<open>An array index: the canonical decimal form of an integer below \<open>2^32 - 1\<close>.
  JavaScript enumerates such keys first, in ascending numeric order, and every other
  string key after them in insertion order.\<close>

definition isArrayIndex :: "string \<Rightarrow> bool" where
  "isArrayIndex s =
     (s \<noteq> [] \<and> list_all isDigit s \<and> (s = ''0'' \<or> hd s \<noteq> CHR ''0'')
      \<and> digitsValue s < 2 ^ 32 - 1)"

definition Object_entries :: "(string \<times> 'v) list \<Rightarrow> (string \<times> 'v) list" where
  "Object_entries obj =
     (let own = AList.clearjunk obj
      in sort_key (\<lambda>e. digitsValue (fst e)) (filter (\<lambda>e. isArrayIndex (fst e)) own)
         @ filter (\<lambda>e. \<not> isArrayIndex (fst e)) own)"

definition Object_keys :: "(string \<times> 'v) list \<Rightarrow> string list" where
  "Object_keys obj = map fst (Object_entries obj)"

text \<open>\<open>Set.prototype.add\<close> on a set kept in insertion order.\<close>

definition set_add :: "'x list \<Rightarrow> 'x \<Rightarrow> 'x list" where
  "set_add S x = (if x \<in> set S then S else S @ [x])"

subsection \<open>The persisted BM25 cache and the controller\<close>

text \<open>A document-frequency counter is declared a number. The counter of a key that
  names an inherited member is a string (see \<open>increment\<close> below), so that the value of a
  counter is a number or a string.\<close>

datatype counted = Num nat | Str string

text \<open>The trie values are opaque (\<open>any\<close> in the source): their type is the parameter
  \<open>'t\<close>. An idf value may be NaN.\<close>

record 't Bm25Cache =
  wordAppeared :: "(string \<times> counted) list"
  tagAppeared :: "(string \<times> counted) list"
  averageDocLength :: real
  averageDocLengthTag :: real
  totalDocs :: nat
  idf :: "(string \<times> jsnum) list"
  idfTag :: "(string \<times> jsnum) list"
  trie :: 't
  trieSize :: nat
  trieTags :: 't
  trieSizeTags :: nat

text \<open>The key of the score cache: the source serialises the list
  \<open>[store, keywords, useTag, k1, b, threshold]\<close> with \<open>JSON.stringify\<close>; the key of the
  model is that tuple.\<close>

type_synonym cache_key = "string \<times> string list \<times> bool \<times> real \<times> real \<times> real"

type_synonym ranked = "(ID \<times> jsnum) list"

text \<open>The state of a controller: the object stores that hold documents, by name; the
  store \<open>general\<close> as \<open>_load\<close> reads it (the value stored under a key); the score cache,
  most recently used entry first.\<close>

record ('a, 't) IDBController =
  db :: "string \<Rightarrow> 'a doc_scheme list"
  general :: "string \<Rightarrow> 't Bm25Cache option"
  cache :: "(cache_key \<times> ranked) list"

definition STORE_KEY_PAPERS :: string where "STORE_KEY_PAPERS = ''papers''"
definition STORE_KEY_RECORDS :: string where "STORE_KEY_RECORDS = ''records''"
definition STORE_KEY_QUESTIONS :: string where "STORE_KEY_QUESTIONS = ''questions''"
definition STORE_KEY_RESULTS :: string where "STORE_KEY_RESULTS = ''results''"

subsection \<open>The score cache\<close>

text \<open>Modelled from the spec: the package quick-lru is not part of the repository. The
  specification describes it as a bounded cache of capacity 100 with eviction of the least
  recently used entry.\<close>

definition lru_has :: "'k \<Rightarrow> ('k \<times> 'v) list \<Rightarrow> bool" where
  "lru_has k c = (map_of c k \<noteq> None)"

definition lru_get :: "'k \<Rightarrow> ('k \<times> 'v) list \<Rightarrow> 'v option \<times> ('k \<times> 'v) list" where
  "lru_get k c =
     (case map_of c k of
        None \<Rightarrow> (None, c)
      | Some v \<Rightarrow> (Some v, (k, v) # filter (\<lambda>e. fst e \<noteq> k) c))"

definition lru_set :: "'k \<Rightarrow> 'v \<Rightarrow> ('k \<times> 'v) list \<Rightarrow> ('k \<times> 'v) list" where
  "lru_set k v c = take 100 ((k, v) # filter (\<lambda>e. fst e \<noteq> k) c)"

definition lru_clear :: "('k \<times> 'v) list \<Rightarrow> ('k \<times> 'v) list" where
  "lru_clear c = []"

section \<open>Object stores\<close>

text \<open>\<open>get\<close>, \<open>put\<close>, \<open>add\<close> and \<open>delete\<close> of an object store whose key path is
  \<open>id\<close>. \<open>add\<close> fails on an existing key.\<close>

fun db_get :: "'a doc_scheme list \<Rightarrow> ID \<Rightarrow> 'a doc_scheme option" where
  "db_get [] k = None"
| "db_get (x # xs) k = (if docId x = k then Some x else db_get xs k)"

fun db_put :: "'a doc_scheme \<Rightarrow> 'a doc_scheme list \<Rightarrow> 'a doc_scheme list" where
  "db_put d [] = [d]"
| "db_put d (x # xs) =
     (if docId x = docId d then d # xs
      else if docId d < docId x then d # x # xs
      else x # db_put d xs)"

definition db_delete :: "ID \<Rightarrow> 'a doc_scheme list \<Rightarrow> 'a doc_scheme list" where
  "db_delete k xs = filter (\<lambda>x. docId x \<noteq> k) xs"

definition db_add :: "'a doc_scheme \<Rightarrow> 'a doc_scheme list \<Rightarrow> error + 'a doc_scheme list" where
  "db_add d xs =
     (case db_get xs (docId d) of
        Some x \<Rightarrow> Inl ConstraintError
      | None \<Rightarrow> Inr (db_put d xs))"

section \<open>Sanitization and the getters\<close>

text \<open>\<open>sanitizeIndices\<close> deletes properties of \<open>ret\<close>, which is the argument itself
  when \<open>inPlace\<close> holds. The model returns the argument as the call leaves it, and the
  returned object.\<close>

definition sanitizeIndices ::
  "'a doc_scheme \<Rightarrow> bool \<Rightarrow> bool \<Rightarrow> 'a doc_scheme \<times> 'a doc_scheme" where
  "sanitizeIndices object inPlace retainTags =
     (let ret = object;
          ret = ret\<lparr>deleted := None\<rparr>;
          ret = ret\<lparr>keywordsList := None\<rparr>;
          ret = ret\<lparr>keywordsFrequency := None\<rparr>;
          ret = ret\<lparr>tagsFrequency := None\<rparr>;
          ret = ret\<lparr>keywordsUpdatedTime := None\<rparr>;
          ret = (if \<not> retainTags then ret\<lparr>tags := None\<rparr> else ret)
      in (if inPlace then ret else object, ret))"

text \<open>\<open>getQuizPaper\<close> and \<open>getQuestions\<close> sanitise the fetched object in place and
  return it; \<open>getQuizRecord\<close> returns what the store holds.\<close>

definition getQuizPaper :: "ID \<Rightarrow> ('a, 't) IDBController \<Rightarrow> 'a doc_scheme option" where
  "getQuizPaper k s =
     (case db_get (db s STORE_KEY_PAPERS) k of
        None \<Rightarrow> None
      | Some ret \<Rightarrow> Some (fst (sanitizeIndices ret True True)))"

definition getQuestions ::
  "ID list \<Rightarrow> ('a, 't) IDBController \<Rightarrow> 'a doc_scheme option list" where
  "getQuestions ids s =
     map (\<lambda>k. case db_get (db s STORE_KEY_QUESTIONS) k of
                None \<Rightarrow> None
              | Some ret \<Rightarrow> Some (fst (sanitizeIndices ret True True))) ids"

definition getQuizRecord :: "ID \<Rightarrow> ('a, 't) IDBController \<Rightarrow> 'a doc_scheme option" where
  "getQuizRecord k s = db_get (db s STORE_KEY_RECORDS) k"

section \<open>Import, delete and update\<close>

text \<open>\<open>_import\<close>: every item is added in one read-write transaction; a failing \<open>add\<close>
  aborts the transaction, so that nothing is written.\<close>

fun addAll :: "'a doc_scheme list \<Rightarrow> 'a doc_scheme list \<Rightarrow> error + 'a doc_scheme list" where
  "addAll [] xs = Inr xs"
| "addAll (q # qs) xs =
     (case db_add q xs of Inl e \<Rightarrow> Inl e | Inr xs' \<Rightarrow> addAll qs xs')"

definition IDB_import ::
  "string \<Rightarrow> 'a doc_scheme list \<Rightarrow> ('a, 't) IDBController
   \<Rightarrow> (error + ID list) \<times> ('a, 't) IDBController" where
  "IDB_import store items s =
     (case addAll items (db s store) of
        Inl e \<Rightarrow> (Inl e, s)
      | Inr xs \<Rightarrow> (Inr (map docId items), s\<lparr>db := (db s)(store := xs)\<rparr>))"

text \<open>\<open>_delete\<close>; \<open>now\<close> is the value of \<open>Date.now()\<close> on the soft path.\<close>

definition IDB_delete ::
  "int \<Rightarrow> string \<Rightarrow> ID \<Rightarrow> bool \<Rightarrow> ('a, 't) IDBController
   \<Rightarrow> bool \<times> ('a, 't) IDBController" where
  "IDB_delete now store k hard s =
     (case db_get (db s store) k of
        None \<Rightarrow> (False, s)
      | Some original \<Rightarrow>
          (let s1 = (if \<not> hard
                     then s\<lparr>db := (db s)(store :=
                            db_put (original\<lparr>deleted := Some True, lastUpdate := Some now\<rparr>)
                              (db s store))\<rparr>
                     else s\<lparr>db := (db s)(store := db_delete k (db s store))\<rparr>)
           in (True, s1\<lparr>cache := lru_clear (cache s1)\<rparr>)))"

text \<open>\<open>_update\<close>. The function \<open>applyPatch\<close> of \<open>utils/patch\<close> is a parameter: any
  function that returns the patched copy of its first argument. A patch has the type of
  a document, as the source stores it as one on the create path.

  The source reads the record (\<open>this.db.get\<close>), computes the patched copy and then opens a
  read-write transaction, in which it reads the record again and writes.
  \<open>update_modified\<close> is the computation of the copy, \<open>update_commit\<close> the transaction;
  other operations may run between the first read and the transaction.\<close>

definition update_modified ::
  "('a doc_scheme \<Rightarrow> 'a doc_scheme \<Rightarrow> 'a doc_scheme) \<Rightarrow> int \<Rightarrow> ID \<Rightarrow> 'a doc_scheme \<Rightarrow> bool
   \<Rightarrow> 'a doc_scheme \<Rightarrow> 'a doc_scheme" where
  "update_modified applyPatch now k patch invalidateKeywordsCache original =
     (let modified = applyPatch original patch;
          modified = modified\<lparr>docId := k\<rparr>;
          modified = modified\<lparr>lastUpdate := Some now\<rparr>
      in if invalidateKeywordsCache
         then modified\<lparr>keywordsList := None, keywordsFrequency := None,
                tagsFrequency := None, keywordsUpdatedTime := None\<rparr>
         else modified)"

definition update_commit ::
  "string \<Rightarrow> ID \<Rightarrow> 'a doc_scheme \<Rightarrow> 'a doc_scheme \<Rightarrow> ('a, 't) IDBController
   \<Rightarrow> (error + ID) \<times> ('a, 't) IDBController" where
  "update_commit store k original modified s =
     (let another = db_get (db s store) k
      in if (case another of None \<Rightarrow> None | Some a \<Rightarrow> lastUpdate a) \<noteq> lastUpdate original
         then (Inl DataModified, s)
         else (Inr k, s\<lparr>db := (db s)(store := db_put modified (db s store)),
                       cache := lru_clear (cache s)\<rparr>))"

definition IDB_update ::
  "('a doc_scheme \<Rightarrow> 'a doc_scheme \<Rightarrow> 'a doc_scheme) \<Rightarrow> int \<Rightarrow> string \<Rightarrow> ID \<Rightarrow> 'a doc_scheme
   \<Rightarrow> bool \<Rightarrow> ('a, 't) IDBController \<Rightarrow> (error + ID) \<times> ('a, 't) IDBController" where
  "IDB_update applyPatch now store k patch invalidateKeywordsCache s =
     (case db_get (db s store) k of
        None \<Rightarrow>
          (case IDB_import store [patch\<lparr>docId := k, lastUpdate := Some now\<rparr>] s of
             (Inl e, s') \<Rightarrow> (Inl e, s')
           | (Inr ids, s') \<Rightarrow> (Inr k, s'))
      | Some original \<Rightarrow>
          update_commit store k original
            (update_modified applyPatch now k patch invalidateKeywordsCache original) s)"

section \<open>The indexer\<close>

text \<open>The test of \<open>_buildIndices\<close> that decides whether the cursor's object is indexed
  again.\<close>

definition needsReindex :: "bool \<Rightarrow> 'a doc_scheme \<Rightarrow> bool" where
  "needsReindex force object =
     (force \<or> (deleted object \<noteq> Some True \<and>
        (keywordsList object = None \<or>
         (case keywordsUpdatedTime object of
            None \<Rightarrow> True
          | Some u \<Rightarrow> (case lastUpdate object of None \<Rightarrow> False | Some t \<Rightarrow> u < t)))))"

text \<open>The tag frequencies: \<open>tagFreq[tag] = 1\<close> for every entry of \<open>tags\<close>, then
  \<open>tagFreq[tag] = 4\<close> for every entry of \<open>categories\<close>, on an object that starts as
  \<open>{}\<close>.\<close>

definition buildTagFreq :: "string list \<Rightarrow> string list \<Rightarrow> (string \<times> real) list" where
  "buildTagFreq ts cs =
     foldl (\<lambda>tagFreq tag. setProp tag 4 tagFreq)
       (foldl (\<lambda>tagFreq tag. setProp tag 1 tagFreq) [] ts) cs"

text \<open>The function \<open>generateKeywords\<close> is not part of the sources at hand. The parameter
  \<open>gen\<close> stands for \<open>generateKeywords\<close> applied to the values of the properties of
  the object whose names are not excluded: any function of the excluded names and the
  object, returning the keywords and their frequencies.\<close>

definition reindex ::
  "(string list \<Rightarrow> 'a doc_scheme \<Rightarrow> string list \<times> (string \<times> real) list) \<Rightarrow> string list \<Rightarrow> int
   \<Rightarrow> 'a doc_scheme \<Rightarrow> 'a doc_scheme" where
  "reindex gen excludedKeys now object =
     (let wf = gen excludedKeys object;
          object = object\<lparr>keywordsUpdatedTime := Some now\<rparr>;
          object = object\<lparr>keywordsFrequency := Some (snd wf)\<rparr>;
          object = object\<lparr>keywordsList := Some (fst wf)\<rparr>;
          tagFreq = buildTagFreq (case tags object of None \<Rightarrow> [] | Some ts \<Rightarrow> ts)
                      (case categories object of None \<Rightarrow> [] | Some cs \<Rightarrow> cs)
      in object\<lparr>tagsFrequency := Some tagFreq\<rparr>)"

text \<open>The local variables of \<open>_buildIndices\<close> that the scan updates.\<close>

record scan =
  updated :: "ID list"
  wordAppearedV :: "(string \<times> counted) list"
  tagAppearedV :: "(string \<times> counted) list"
  totalLength :: nat
  totalLengthTag :: nat
  totalDocsV :: nat

text \<open>The value of \<open>(m[key] || 0) + 1\<close> for the value \<open>x\<close> of \<open>m[key]\<close>. An
  inherited member is a function or an object, which is not falsy, and \<open>+\<close> appends the
  text of 1 to its text; so it does to a string that is not empty.\<close>

definition increment :: "counted slot \<Rightarrow> counted" where
  "increment x =
     (case x of
        Own (Num n) \<Rightarrow> Num (n + 1)
      | Own (Str s) \<Rightarrow> (if s = [] then Num 1 else Str (s @ ''1''))
      | Inherited text \<Rightarrow> Str (text @ ''1'')
      | Undefined \<Rightarrow> Num 1)"

text \<open>\<open>m[key] = (m[key] || 0) + 1\<close>.\<close>

definition bump :: "(string \<times> counted) list \<Rightarrow> string \<Rightarrow> (string \<times> counted) list" where
  "bump m key = setProp key (increment (getProp m key)) m"

definition countKeys ::
  "(string \<times> counted) list \<Rightarrow> (string \<times> real) list option \<Rightarrow> (string \<times> counted) list" where
  "countKeys m obj = foldl bump m (Object_keys (case obj of None \<Rightarrow> [] | Some f \<Rightarrow> f))"

definition optLength :: "'x list option \<Rightarrow> nat" where
  "optLength xs = (case xs of None \<Rightarrow> 0 | Some ys \<Rightarrow> length ys)"

text \<open>The statistics part of the loop body, on the object as the indexing part left
  it.\<close>

definition account :: "scan \<Rightarrow> 'a doc_scheme \<Rightarrow> scan" where
  "account acc object =
     acc\<lparr>wordAppearedV := countKeys (wordAppearedV acc) (keywordsFrequency object),
         tagAppearedV := countKeys (tagAppearedV acc) (tagsFrequency object),
         totalLength := totalLength acc + optLength (keywordsList object),
         totalLengthTag := totalLengthTag acc
            + (optLength (tags object) + optLength (categories object)),
         totalDocsV := totalDocsV acc + 1\<rparr>"

text \<open>The cursor loop. \<open>clock n\<close> is the value of the \<open>n\<close>-th call of \<open>Date.now()\<close>;
  the loop reads the clock once for every object it indexes. The result is the store as
  \<open>cursor.update\<close> leaves it, the number of clock readings so far, and the local
  variables.\<close>

fun scanCursor ::
  "(string list \<Rightarrow> 'a doc_scheme \<Rightarrow> string list \<times> (string \<times> real) list) \<Rightarrow> (nat \<Rightarrow> int) \<Rightarrow> bool
   \<Rightarrow> string list \<Rightarrow> 'a doc_scheme list \<Rightarrow> nat \<Rightarrow> scan
   \<Rightarrow> 'a doc_scheme list \<times> nat \<times> scan" where
  "scanCursor gen clock force excludedKeys [] n acc = ([], n, acc)"
| "scanCursor gen clock force excludedKeys (object # rest) n acc =
     (let hit = needsReindex force object;
          object' = (if hit then reindex gen excludedKeys (clock n) object else object);
          acc1 = (if hit then acc\<lparr>updated := updated acc @ [docId object']\<rparr> else acc);
          r = scanCursor gen clock force excludedKeys rest (if hit then Suc n else n)
                (account acc1 object')
      in (object' # fst r, snd r))"

definition emptyScan :: scan where
  "emptyScan = \<lparr>updated = [], wordAppearedV = [], tagAppearedV = [], totalLength = 0,
                totalLengthTag = 0, totalDocsV = 0\<rparr>"

definition idfOf :: "nat \<Rightarrow> nat \<Rightarrow> real" where
  "idfOf N n = max (1 / 10 ^ 8) (ln ((real N - real n + 0.5) / (real n + 0.5)))"

text \<open>\<open>Math.max(1e-8, Math.log((totalDocs - n + 0.5) / (n + 0.5)))\<close> for the value
  \<open>n\<close> of a counter. The logarithm of a negative number is NaN. A counter that is a
  string begins with the text of an inherited member and is not the text of a number:
  the difference \<open>totalDocs - n\<close> is NaN, and so are the quotient, the logarithm and the
  maximum.\<close>

fun idfValue :: "nat \<Rightarrow> counted \<Rightarrow> jsnum" where
  "idfValue N (Num n) = (if real N + 0.5 < real n then NaN else Fin (idfOf N n))"
| "idfValue N (Str s) = NaN"

text \<open>The cache that \<open>_buildIndices\<close> writes. \<open>buildTrieTree\<close> (of \<open>./search\<close>) is a
  parameter.\<close>

definition bm25Body :: "(string list \<Rightarrow> 't \<times> nat) \<Rightarrow> scan \<Rightarrow> 't Bm25Cache" where
  "bm25Body buildTrieTree acc =
     (let t = buildTrieTree (Object_keys (wordAppearedV acc));
          tt = buildTrieTree (Object_keys (tagAppearedV acc))
      in \<lparr>wordAppeared = wordAppearedV acc,
          tagAppeared = tagAppearedV acc,
          averageDocLength =
            real (totalLength acc) / real (if totalDocsV acc = 0 then 1 else totalDocsV acc),
          averageDocLengthTag =
            real (totalLengthTag acc) / real (if totalDocsV acc = 0 then 1 else totalDocsV acc),
          totalDocs = totalDocsV acc,
          idf = map (\<lambda>e. (fst e, idfValue (totalDocsV acc) (snd e)))
                  (Object_entries (wordAppearedV acc)),
          idfTag = map (\<lambda>e. (fst e, idfValue (totalDocsV acc) (snd e)))
                  (Object_entries (tagAppearedV acc)),
          trie = fst t, trieSize = snd t, trieTags = fst tt, trieSizeTags = snd tt\<rparr>)"

text \<open>\<open>_buildIndices\<close>, started when the clock has been read \<open>n\<close> times: the ids of
  the indexed objects, the number of clock readings, the new state.\<close>

definition IDB_buildIndices ::
  "(string list \<Rightarrow> 'a doc_scheme \<Rightarrow> string list \<times> (string \<times> real) list)
   \<Rightarrow> (string list \<Rightarrow> 't \<times> nat) \<Rightarrow> (nat \<Rightarrow> int) \<Rightarrow> nat \<Rightarrow> string \<Rightarrow> bool \<Rightarrow> string list
   \<Rightarrow> ('a, 't) IDBController \<Rightarrow> ID list \<times> nat \<times> ('a, 't) IDBController" where
  "IDB_buildIndices gen buildTrieTree clock n store force excludedKeys s =
     (let r = scanCursor gen clock force excludedKeys (db s store) n emptyScan;
          acc = snd (snd r)
      in (updated acc, fst (snd r),
          s\<lparr>db := (db s)(store := fst r),
            general := (general s)(''bm25_'' @ store \<mapsto> bm25Body buildTrieTree acc)\<rparr>))"

definition refreshSearchIndices ::
  "(string list \<Rightarrow> 'a doc_scheme \<Rightarrow> string list \<times> (string \<times> real) list)
   \<Rightarrow> (string list \<Rightarrow> 't \<times> nat) \<Rightarrow> (nat \<Rightarrow> int) \<Rightarrow> bool
   \<Rightarrow> ('a, 't) IDBController \<Rightarrow> nat \<times> ('a, 't) IDBController" where
  "refreshSearchIndices gen buildTrieTree clock force s =
     (let r1 = IDB_buildIndices gen buildTrieTree clock 0 STORE_KEY_QUESTIONS force
                 [''id'', ''keywords''] s;
          r2 = IDB_buildIndices gen buildTrieTree clock (fst (snd r1)) STORE_KEY_PAPERS force
                 [''id'', ''questions'', ''keywords''] (snd (snd r1));
          s2 = snd (snd r2)
      in (length (fst r1) + length (fst r2), s2\<lparr>cache := lru_clear (cache s2)\<rparr>))"

section \<open>The query engine\<close>

text \<open>The operand \<open>obj[key] ?? 0\<close> of the score arithmetic, for the value \<open>x\<close> of
  \<open>obj[key]\<close>; \<open>num\<close> reads a stored value as a number. An inherited member is not
  nullish, so it is the operand. It is a function or an object: its product with a
  number is NaN, and both reads of \<open>_buildScore\<close> are factors of the numerator of the
  term, so that the term is NaN. The model takes NaN for such an operand.\<close>

definition orZero :: "('v \<Rightarrow> jsnum) \<Rightarrow> 'v slot \<Rightarrow> jsnum" where
  "orZero num x = (case x of Own v \<Rightarrow> num v | Inherited text \<Rightarrow> NaN | Undefined \<Rightarrow> Fin 0)"

text \<open>The term that one query term adds to the score of a document.\<close>

definition localTerm :: "jsnum \<Rightarrow> jsnum \<Rightarrow> real \<Rightarrow> real \<Rightarrow> nat \<Rightarrow> real \<Rightarrow> jsnum" where
  "localTerm idf_qi f_qi k1 b docLength l =
     jsdiv (jsmul idf_qi (jsmul f_qi (Fin (k1 + 1))))
       (jsadd f_qi
          (jsmul (Fin k1)
             (jsadd (Fin (1 - b)) (jsdiv (Fin (b * real docLength)) (Fin l)))))"

definition docLengthOf :: "bool \<Rightarrow> 'a doc_scheme \<Rightarrow> nat" where
  "docLengthOf useTag doc =
     (let cacheList =
            (if useTag
             then Some ((case tags doc of None \<Rightarrow> [] | Some ts \<Rightarrow> ts)
                        @ (case categories doc of None \<Rightarrow> [] | Some cs \<Rightarrow> cs))
             else keywordsList doc)
      in case cacheList of
           None \<Rightarrow> 1
         | Some xs \<Rightarrow> (if length xs = 0 then 1 else length xs))"

definition docScore ::
  "bool \<Rightarrow> (string \<times> jsnum) list \<Rightarrow> real \<Rightarrow> real \<Rightarrow> real \<Rightarrow> string list \<Rightarrow> 'a doc_scheme
   \<Rightarrow> jsnum" where
  "docScore useTag idfM l k1 b expandedQuery doc =
     (let docLength = docLengthOf useTag doc;
          freq = (case (if useTag then tagsFrequency doc else keywordsFrequency doc) of
                    None \<Rightarrow> [] | Some f \<Rightarrow> f)
      in foldl (\<lambda>score qi.
                  (let f_qi = orZero Fin (getProp freq qi)
                   in jsadd score
                        (localTerm (orZero (\<lambda>v. v) (getProp idfM qi)) f_qi k1 b docLength l)))
           (Fin 0) expandedQuery)"

definition expandQuery :: "(string \<Rightarrow> string list) \<Rightarrow> string list \<Rightarrow> string list" where
  "expandQuery searchFunc q =
     foldl (\<lambda>expandedQuery qi. foldl set_add (set_add expandedQuery qi) (searchFunc qi))
       [] q"

text \<open>The order of the comparator \<open>(a, b) => b[1] - a[1]\<close> on the scores that pass the
  threshold: descending; a NaN difference counts as equality.\<close>

fun rankKey :: "jsnum \<Rightarrow> nat \<times> real" where
  "rankKey PInf = (0, 0)"
| "rankKey (Fin x) = (1, - x)"
| "rankKey NInf = (2, 0)"
| "rankKey NaN = (3, 0)"

text \<open>The cursor loop of \<open>_buildScore\<close>: \<open>scores[doc.id] = score\<close> on an object that
  starts as \<open>{}\<close>.\<close>

definition collectScores ::
  "bool \<Rightarrow> (string \<times> jsnum) list \<Rightarrow> real \<Rightarrow> real \<Rightarrow> real \<Rightarrow> real \<Rightarrow> string list
   \<Rightarrow> 'a doc_scheme list \<Rightarrow> ranked" where
  "collectScores useTag idfM l k1 b threshold expandedQuery docs =
     foldl (\<lambda>scores doc.
              (let score = docScore useTag idfM l k1 b expandedQuery doc
               in if jsgt score threshold then setProp (docId doc) score scores
                  else scores))
       [] docs"

text \<open>\<open>_buildScore\<close>. \<open>loadTrieTree\<close> (of \<open>./search\<close>) is a parameter, applied to a
  trie and its size it gives the search function; \<open>emptyObject\<close> is the value \<open>{}\<close>
  that stands for the tries when no cache is stored.\<close>

definition IDB_buildScore ::
  "('t \<Rightarrow> nat \<Rightarrow> string \<Rightarrow> string list) \<Rightarrow> 't \<Rightarrow> cache_key \<Rightarrow> string \<Rightarrow> string list \<Rightarrow> bool
   \<Rightarrow> real \<Rightarrow> real \<Rightarrow> real \<Rightarrow> ('a, 't) IDBController \<Rightarrow> ranked \<times> ('a, 't) IDBController" where
  "IDB_buildScore loadTrieTree emptyObject key store q useTag k1 b threshold s =
     (let c = (case general s (''bm25_'' @ store) of
                 Some c \<Rightarrow> (idf c, idfTag c, averageDocLength c, averageDocLengthTag c,
                            trie c, trieSize c, trieTags c, trieSizeTags c)
               | None \<Rightarrow> ([], [], 0, 0, emptyObject, 0, emptyObject, 0));
          (idf', idfTag', averageDocLength', averageDocLengthTag',
           trie', trieSize', trieTags', trieSizeTags') = c;
          trieTree = loadTrieTree (if \<not> useTag then trie' else trieTags')
                       (if \<not> useTag then trieSize' else trieSizeTags');
          l = (if useTag then averageDocLengthTag' else averageDocLength');
          idfM = (if useTag then idfTag' else idf');
          expandedQuery = expandQuery trieTree q;
          scores = collectScores useTag idfM l k1 b threshold expandedQuery (db s store);
          scoresSorted = sort_key (\<lambda>e. rankKey (snd e)) (Object_entries scores)
      in (scoresSorted, s\<lparr>cache := lru_set key scoresSorted (cache s)\<rparr>))"

record 'a SearchResult =
  query :: string
  keywordsQ :: "string list"
  result :: "'a doc_scheme list"
  totalPages :: nat

text \<open>The id that the loop of \<open>_search\<close> looks up at index \<open>i\<close>:
  \<open>scores?.[i]?.[0] ?? ''\<close>.\<close>

definition idAt :: "ranked option \<Rightarrow> nat \<Rightarrow> ID" where
  "idAt scores i =
     (case scores of
        None \<Rightarrow> []
      | Some sc \<Rightarrow> (if i < length sc then fst (sc ! i) else []))"

definition fetchPage ::
  "'a doc_scheme list \<Rightarrow> ranked option \<Rightarrow> nat \<Rightarrow> nat \<Rightarrow> 'a doc_scheme list" where
  "fetchPage docs scores count page =
     concat (map (\<lambda>i. case db_get docs (idAt scores i) of
                        None \<Rightarrow> []
                      | Some currentResult \<Rightarrow> [snd (sanitizeIndices currentResult True True)])
               [page * count ..< (page + 1) * count])"

definition IDB_search ::
  "('t \<Rightarrow> nat \<Rightarrow> string \<Rightarrow> string list) \<Rightarrow> 't \<Rightarrow> string \<Rightarrow> string \<Rightarrow> string list \<Rightarrow> bool
   \<Rightarrow> int option \<Rightarrow> int option \<Rightarrow> real \<Rightarrow> real \<Rightarrow> real \<Rightarrow> ('a, 't) IDBController
   \<Rightarrow> 'a SearchResult \<times> ('a, 't) IDBController" where
  "IDB_search loadTrieTree emptyObject store q keywords useTag count page k1 b threshold s =
     (let queryCacheKey = (store, keywords, useTag, k1, b, threshold);
          r = (if lru_has queryCacheKey (cache s)
               then (let g = lru_get queryCacheKey (cache s) in (fst g, s\<lparr>cache := snd g\<rparr>))
               else (let g = IDB_buildScore loadTrieTree emptyObject queryCacheKey store
                               keywords useTag k1 b threshold s
                     in (Some (fst g), snd g)));
          scores = fst r;
          s' = snd r;
          count' = nat (max (case count of None \<Rightarrow> 1 | Some c \<Rightarrow> c) 1);
          page' = nat (max (case page of None \<Rightarrow> 0 | Some p \<Rightarrow> p) 0)
      in (\<lparr>query = q, keywordsQ = keywords,
           result = fetchPage (db s' store) scores count' page',
           totalPages =
             nat \<lceil>real (case scores of None \<Rightarrow> 0 | Some sc \<Rightarrow> length sc) / real count'\<rceil>\<rparr>,
          s'))"

section \<open>Predicates of the specification and concrete instances\<close>

text \<open>What the specification asks of a returned document \<open>x\<close> with respect to the
  stored document: the derived fields and the deletion flag are gone, every other field is
  as stored.\<close>

definition sanitizedFrom :: "'a doc_scheme \<Rightarrow> 'a doc_scheme \<Rightarrow> bool" where
  "sanitizedFrom stored x =
     (deleted x = None \<and> keywordsList x = None \<and> keywordsFrequency x = None
      \<and> tagsFrequency x = None \<and> keywordsUpdatedTime x = None
      \<and> docId x = docId stored \<and> lastUpdate x = lastUpdate stored
      \<and> tags x = tags stored \<and> categories x = categories stored
      \<and> doc.more x = doc.more stored)"

text \<open>Modelled from the spec: \<open>applyPatch\<close> (of \<open>utils/patch\<close>) is not among the sources;
  the specification says that it applies the patch field by field to a copy. This
  instance, which copies the tags and the categories that the patch carries, serves the
  concrete instances below.\<close>

definition mergePatch :: "'a doc_scheme \<Rightarrow> 'a doc_scheme \<Rightarrow> 'a doc_scheme" where
  "mergePatch original patch =
     original\<lparr>tags := (case tags patch of None \<Rightarrow> tags original | Some ts \<Rightarrow> Some ts),
              categories := (case categories patch of None \<Rightarrow> categories original
                             | Some cs \<Rightarrow> Some cs)\<rparr>"

definition demoDoc :: "ID \<Rightarrow> string list \<Rightarrow> string list \<Rightarrow> doc" where
  "demoDoc k ts cs =
     \<lparr>docId = k, deleted = None, lastUpdate = Some 5, tags = Some ts, categories = Some cs,
      keywordsList = None, keywordsFrequency = None, tagsFrequency = None,
      keywordsUpdatedTime = None\<rparr>"

definition demoState :: "(unit, string list) IDBController" where
  "demoState =
     \<lparr>db = (\<lambda>store. if store = ''questions'' then [demoDoc ''q1'' [''math''] []] else []),
      general = (\<lambda>key. None),
      cache = [((''questions'', [''math''], True, 1.5, 0.75, 1 / 10 ^ 10),
                [(''q1'', Fin 1)])]\<rparr>"

text \<open>Modelled from the spec: \<open>buildTrieTree\<close> and \<open>loadTrieTree\<close> (of \<open>./search\<close>)
  are not among the sources. According to the specification a search in the loaded trie
  returns every term of the vocabulary that begins with the prefix. In this instance the
  serialised trie is the vocabulary itself; it serves the concrete instances below.\<close>

definition specBuildTrieTree :: "string list \<Rightarrow> string list \<times> nat" where
  "specBuildTrieTree vocabulary = (remdups vocabulary, length (remdups vocabulary))"

definition specLoadTrieTree :: "string list \<Rightarrow> nat \<Rightarrow> string \<Rightarrow> string list" where
  "specLoadTrieTree t n pre = filter (\<lambda>w. take (length pre) w = pre) t"

text \<open>The names of the inherited members.\<close>

definition isProtoKey :: "string \<Rightarrow> bool" where
  "isProtoKey key = (map_of Object_prototype key \<noteq> None)"

text \<open>The number that a counter holds for a key (0 when it holds none), and the keys of
  an optional object.\<close>

definition cnt :: "(string \<times> counted) list \<Rightarrow> string \<Rightarrow> nat" where
  "cnt m k = (case map_of m k of Some (Num c) \<Rightarrow> c | Some (Str s) \<Rightarrow> 0 | None \<Rightarrow> 0)"

definition keysOf :: "(string \<times> 'v) list option \<Rightarrow> string set" where
  "keysOf obj = (case obj of None \<Rightarrow> {} | Some f \<Rightarrow> fst ` set f)"

text \<open>No clock reading is earlier than the \<open>lastUpdate\<close> of the live document.\<close>

definition notAhead :: "(nat \<Rightarrow> int) \<Rightarrow> 'a doc_scheme \<Rightarrow> bool" where
  "notAhead clock d =
     (deleted d = Some True
      \<or> (case lastUpdate d of None \<Rightarrow> True | Some t \<Rightarrow> \<forall>m. t \<le> clock m))"

text \<open>The state that a refresh leaves: an empty score cache, the two persisted caches
  computed from the stored documents, and no document that a call without \<open>force\<close>
  would index.\<close>

definition indexed :: "(string list \<Rightarrow> 't \<times> nat) \<Rightarrow> ('a, 't) IDBController \<Rightarrow> bool" where
  "indexed bt s =
     (cache s = []
      \<and> general s (''bm25_'' @ STORE_KEY_QUESTIONS)
          = Some (bm25Body bt (foldl account emptyScan (db s STORE_KEY_QUESTIONS)))
      \<and> general s (''bm25_'' @ STORE_KEY_PAPERS)
          = Some (bm25Body bt (foldl account emptyScan (db s STORE_KEY_PAPERS)))
      \<and> list_all (\<lambda>d. \<not> needsReindex False d) (db s STORE_KEY_QUESTIONS)
      \<and> list_all (\<lambda>d. \<not> needsReindex False d) (db s STORE_KEY_PAPERS))"

text \<open>Two clocks and a keyword extractor that finds no keyword, for the concrete
  instances.\<close>

definition clockBehind :: "nat \<Rightarrow> int" where "clockBehind n = 3"

definition clockAfter :: "nat \<Rightarrow> int" where "clockAfter n = 6 + int n"

definition noKeywords :: "string list \<Rightarrow> 'a doc_scheme \<Rightarrow> string list \<times> (string \<times> real) list" where
  "noKeywords excludedKeys object = ([], [])"

text \<open>The cache that an index rebuild persists for a store that it leaves with the
  documents \<open>docs\<close>.\<close>

definition bm25Of ::
  "(string list \<Rightarrow> 't \<times> nat) \<Rightarrow> 'a doc_scheme list \<Rightarrow> 't Bm25Cache" where
  "bm25Of bt docs = bm25Body bt (foldl account emptyScan docs)"

text \<open>The number that a frequency object or an idf object has as its own property under
  a key: 0 when it has none, for an idf object also when the value is not finite.\<close>

definition freqAt :: "(string \<times> real) list \<Rightarrow> string \<Rightarrow> real" where
  "freqAt m k = (case map_of m k of None \<Rightarrow> 0 | Some v \<Rightarrow> v)"

definition idfAt :: "(string \<times> jsnum) list \<Rightarrow> string \<Rightarrow> real" where
  "idfAt m k = (case map_of m k of Some (Fin v) \<Rightarrow> v | _ \<Rightarrow> 0)"

text \<open>The BM25 term of the source as a real number, for the case that no division is by
  zero.\<close>

definition bm25Term :: "real \<Rightarrow> real \<Rightarrow> real \<Rightarrow> real \<Rightarrow> nat \<Rightarrow> real \<Rightarrow> real" where
  "bm25Term idf_qi f_qi k1 b docLength l =
     idf_qi * (f_qi * (k1 + 1)) / (f_qi + k1 * (1 - b + b * real docLength / l))"

text \<open>The value \<open>xs ?? []\<close>.\<close>

definition orEmpty :: "'x list option \<Rightarrow> 'x list" where
  "orEmpty xs = (case xs of None \<Rightarrow> [] | Some ys \<Rightarrow> ys)"

text \<open>A store of two papers: \<open>a\<close> has the category \<open>constructor\<close>, \<open>b\<close> the
  tag \<open>constructor\<close>.\<close>

definition demoConstructor :: "(unit, string list) IDBController" where
  "demoConstructor =
     \<lparr>db = (\<lambda>store. if store = ''papers''
                     then [demoDoc ''a'' [] [''constructor''], demoDoc ''b'' [''constructor''] []]
                     else []),
      general = (\<lambda>key. None),
      cache = []\<rparr>"

text \<open>The two papers as an index rebuild of the papers leaves them, and the state after
  that rebuild.\<close>

definition constructorA :: doc where
  "constructorA =
     reindex noKeywords [''id'', ''questions'', ''keywords''] (clockAfter 0)
       (demoDoc ''a'' [] [''constructor''])"

definition constructorB :: doc where
  "constructorB =
     reindex noKeywords [''id'', ''questions'', ''keywords''] (clockAfter 1)
       (demoDoc ''b'' [''constructor''] [])"

definition demoConstructorIndexed :: "(unit, string list) IDBController" where
  "demoConstructorIndexed =
     snd (snd (IDB_buildIndices noKeywords specBuildTrieTree clockAfter 0 ''papers'' True
                 [''id'', ''questions'', ''keywords''] demoConstructor))"

text \<open>A store of two papers: \<open>a\<close> has the category \<open>math\<close>, \<open>b\<close> the tag
  \<open>math\<close>.\<close>

definition demoPair :: "(unit, string list) IDBController" where
  "demoPair =
     \<lparr>db = (\<lambda>store. if store = ''papers''
                     then [demoDoc ''a'' [] [''math''], demoDoc ''b'' [''math''] []] else []),
      general = (\<lambda>key. None),
      cache = []\<rparr>"

text \<open>The score that \<open>_buildScore\<close> computes for a document of the store, from the
  persisted cache of the state.\<close>

definition storedScore ::
  "('t \<Rightarrow> nat \<Rightarrow> string \<Rightarrow> string list) \<Rightarrow> 't \<Rightarrow> string \<Rightarrow> string list \<Rightarrow> bool \<Rightarrow> real \<Rightarrow> real
   \<Rightarrow> ('a, 't) IDBController \<Rightarrow> 'a doc_scheme \<Rightarrow> jsnum" where
  "storedScore loadTrieTree emptyObject store q useTag k1 b s d =
     (case general s (''bm25_'' @ store) of
        Some c \<Rightarrow>
          docScore useTag (if useTag then idfTag c else idf c)
            (if useTag then averageDocLengthTag c else averageDocLength c) k1 b
            (expandQuery (loadTrieTree (if \<not> useTag then trie c else trieTags c)
                            (if \<not> useTag then trieSize c else trieSizeTags c)) q) d
      | None \<Rightarrow>
          docScore useTag [] 0 k1 b (expandQuery (loadTrieTree emptyObject 0) q) d)"

text \<open>A store whose only paper is soft-deleted, and that paper as an index rebuild
  leaves it.\<close>

definition demoDeleted :: "(unit, string list) IDBController" where
  "demoDeleted =
     \<lparr>db = (\<lambda>store. if store = ''papers''
                     then [(demoDoc ''p1'' [''math''] [])\<lparr>deleted := Some True\<rparr>] else []),
      general = (\<lambda>key. None),
      cache = []\<rparr>"

definition demoDeletedIndexed :: doc where
  "demoDeletedIndexed =
     reindex noKeywords [''id'', ''questions'', ''keywords''] (clockAfter 0)
       ((demoDoc ''p1'' [''math''] [])\<lparr>deleted := Some True\<rparr>)"

text \<open>The slice \<open>[page * count, (page + 1) * count)\<close> of a ranked list, and the documents
  that a page shows for it: the stored documents with the ids of the slice, sanitised;
  an id that the store no longer holds shows nothing.\<close>

definition rankedSlice :: "ranked \<Rightarrow> nat \<Rightarrow> nat \<Rightarrow> ranked" where
  "rankedSlice L count page = take count (drop (page * count) L)"

definition documentsOf :: "'a doc_scheme list \<Rightarrow> ranked \<Rightarrow> 'a doc_scheme list" where
  "documentsOf docs slice =
     concat (map (\<lambda>e. case db_get docs (fst e) of
                        None \<Rightarrow> []
                      | Some d \<Rightarrow> [snd (sanitizeIndices d True True)]) slice)"

text \<open>The ranked list that a search with the given parameters uses in the state
  \<open>s\<close>.\<close>

definition rankedList ::
  "('t \<Rightarrow> nat \<Rightarrow> string \<Rightarrow> string list) \<Rightarrow> 't \<Rightarrow> string \<Rightarrow> string list \<Rightarrow> bool \<Rightarrow> real \<Rightarrow> real
   \<Rightarrow> real \<Rightarrow> ('a, 't) IDBController \<Rightarrow> ranked" where
  "rankedList loadTrieTree emptyObject store keywords useTag k1 b threshold s =
     (case map_of (cache s) (store, keywords, useTag, k1, b, threshold) of
        Some L \<Rightarrow> L
      | None \<Rightarrow> fst (IDB_buildScore loadTrieTree emptyObject
                       (store, keywords, useTag, k1, b, threshold) store keywords useTag k1 b
                       threshold s))"

text \<open>The page size and the page index after clamping.\<close>

definition clampCount :: "int option \<Rightarrow> nat" where
  "clampCount count = nat (max (case count of None \<Rightarrow> 1 | Some c \<Rightarrow> c) 1)"

definition clampPage :: "int option \<Rightarrow> nat" where
  "clampPage page = nat (max (case page of None \<Rightarrow> 0 | Some p \<Rightarrow> p) 0)"

text \<open>A store that holds a paper under the empty id.\<close>

definition demoEmptyId :: "(unit, string list) IDBController" where
  "demoEmptyId =
     \<lparr>db = (\<lambda>store. if store = ''papers'' then [demoDoc [] [''math''] []] else []),
      general = (\<lambda>key. None),
      cache = []\<rparr>"

section \<open>Facts about the object stores\<close>

lemma db_get_put: "db_get (db_put d xs) k = (if k = docId d then Some d else db_get xs k)"
  by (induction xs) auto

lemma db_get_delete: "db_get (db_delete k' xs) k = (if k = k' then None else db_get xs k)"
  by (induction xs) (auto simp: db_delete_def)

lemma db_get_Some_id: "db_get xs k = Some d \<Longrightarrow> docId d = k"
  by (induction xs) (auto split: if_splits)

lemma db_get_Some_mem: "db_get xs k = Some d \<Longrightarrow> d \<in> set xs"
  by (induction xs) (auto split: if_splits)

section \<open>Sanitization of returned documents\<close>

lemma sanitizedFrom_sanitizeIndices:
  "sanitizedFrom d (snd (sanitizeIndices d inPlace True))"
  "sanitizedFrom d (fst (sanitizeIndices d True True))"
  by (simp_all add: sanitizedFrom_def sanitizeIndices_def Let_def)

lemma fetchPage_sanitized:
  "x \<in> set (fetchPage docs scores c p) \<Longrightarrow> \<exists>d0 \<in> set docs. sanitizedFrom d0 x"
proof -
  assume "x \<in> set (fetchPage docs scores c p)"
  then obtain i d where "db_get docs (idAt scores i) = Some d"
      and x: "x = snd (sanitizeIndices d True True)"
    by (auto simp: fetchPage_def split: option.splits) metis
  then have "d \<in> set docs" by (auto dest: db_get_Some_mem)
  with x show ?thesis using sanitizedFrom_sanitizeIndices(1) by blast
qed

lemma db_IDB_buildScore [simp]:
  "db (snd (IDB_buildScore lt eo key store q useTag k1 b th s)) = db s"
  by (simp add: IDB_buildScore_def Let_def split: prod.splits)

lemma db_IDB_search [simp]:
  "db (snd (IDB_search lt eo store q kws useTag count page k1 b th s)) = db s"
  by (simp add: IDB_search_def Let_def)

lemma result_IDB_search:
  "\<exists>scores c p. result (fst (IDB_search lt eo store q kws useTag count page k1 b th s))
     = fetchPage (db s store) scores c p"
  by (auto simp add: IDB_search_def Let_def)

text \<open>Claim C10. Sanitization of returned documents preserves the frame: every document
  in the result of a search, and every document that \<open>getQuizPaper\<close> or
  \<open>getQuestions\<close> returns, is a stored document of the store in question without the
  fields \<open>deleted\<close>, \<open>keywords\<close>, \<open>keywordsFrequency\<close>, \<open>tagsFrequency\<close> and
  \<open>keywordsUpdatedTime\<close>; its \<open>id\<close>, \<open>lastUpdate\<close>, \<open>tags\<close>, \<open>categories\<close> and
  every other field have the stored values.\<close>

theorem sanitization_frame:
  "(\<forall>x \<in> set (result (fst (IDB_search lt eo store q kws useTag count page k1 b th s))).
      \<exists>d0 \<in> set (db s store). sanitizedFrom d0 x)
   \<and> (\<forall>x. getQuizPaper k s = Some x \<longrightarrow>
         (\<exists>d0. db_get (db s STORE_KEY_PAPERS) k = Some d0 \<and> sanitizedFrom d0 x))
   \<and> (\<forall>i < length ids. \<forall>x. getQuestions ids s ! i = Some x \<longrightarrow>
         (\<exists>d0. db_get (db s STORE_KEY_QUESTIONS) (ids ! i) = Some d0 \<and> sanitizedFrom d0 x))"
proof (intro conjI ballI allI impI)
  fix x assume "x \<in> set (result (fst (IDB_search lt eo store q kws useTag count page k1 b th s)))"
  then show "\<exists>d0 \<in> set (db s store). sanitizedFrom d0 x"
    using result_IDB_search[of lt eo store q kws useTag count page k1 b th s]
    by (auto dest: fetchPage_sanitized)
next
  fix x assume "getQuizPaper k s = Some x"
  then show "\<exists>d0. db_get (db s STORE_KEY_PAPERS) k = Some d0 \<and> sanitizedFrom d0 x"
    by (auto simp: getQuizPaper_def sanitizedFrom_sanitizeIndices split: option.splits)
next
  fix i x assume "i < length ids" "getQuestions ids s ! i = Some x"
  then show "\<exists>d0. db_get (db s STORE_KEY_QUESTIONS) (ids ! i) = Some d0 \<and> sanitizedFrom d0 x"
    by (auto simp: getQuestions_def sanitizedFrom_sanitizeIndices split: option.splits)
qed

section \<open>Update, delete and the optimistic lock\<close>

lemma IDB_update_create:
  assumes "db_get (db s store) k = None"
  shows "IDB_update applyPatch now store k patch ikc s
         = (Inr k, s\<lparr>db := (db s)(store :=
               db_put (patch\<lparr>docId := k, lastUpdate := Some now\<rparr>) (db s store))\<rparr>)"
  using assms by (simp add: IDB_update_def IDB_import_def db_add_def)

lemma IDB_update_existing:
  assumes "db_get (db s store) k = Some original"
  shows "IDB_update applyPatch now store k patch ikc s
         = (Inr k, s\<lparr>db := (db s)(store :=
               db_put (update_modified applyPatch now k patch ikc original) (db s store)),
             cache := []\<rparr>)"
  using assms by (simp add: IDB_update_def update_commit_def lru_clear_def)

lemma docId_update_modified [simp]:
  "docId (update_modified applyPatch now k patch ikc original) = k"
  by (simp add: update_modified_def Let_def)

lemma lastUpdate_update_modified [simp]:
  "lastUpdate (update_modified applyPatch now k patch ikc original) = Some now"
  by (simp add: update_modified_def Let_def)

text \<open>Claim C9. For every call of \<open>update\<close>, whatever id the patch carries and whatever
  \<open>applyPatch\<close> returns: the call returns the id argument, the record committed under
  that key has the id argument as its \<open>id\<close> (it is the patch, on the create path, or
  the patched copy, with the id overwritten), and no record under another key or in
  another store changes.\<close>

theorem update_keeps_id_argument:
  "fst (IDB_update applyPatch now store k patch ikc s) = Inr k
   \<and> (\<exists>d. db_get (db (snd (IDB_update applyPatch now store k patch ikc s)) store) k = Some d
          \<and> docId d = k
          \<and> d = (case db_get (db s store) k of
                   None \<Rightarrow> patch\<lparr>docId := k, lastUpdate := Some now\<rparr>
                 | Some original \<Rightarrow> update_modified applyPatch now k patch ikc original))
   \<and> (\<forall>k'. k' \<noteq> k \<longrightarrow>
         db_get (db (snd (IDB_update applyPatch now store k patch ikc s)) store) k'
         = db_get (db s store) k')
   \<and> (\<forall>store'. store' \<noteq> store \<longrightarrow>
         db (snd (IDB_update applyPatch now store k patch ikc s)) store' = db s store')"
proof (cases "db_get (db s store) k")
  case None
  then show ?thesis by (simp add: IDB_update_create db_get_put)
next
  case (Some original)
  then show ?thesis by (simp add: IDB_update_existing db_get_put)
qed

text \<open>Claim C7. On an id that the store does not hold, no operation raises an error:
  \<open>update\<close> returns the id and stores the patch with the id and
  \<open>lastUpdate = now\<close>; \<open>delete\<close>, soft or hard, returns false and leaves the whole
  state as it is; the getters return an absent value.\<close>

theorem nonexistent_id_no_error:
  assumes "db_get (db s store) k = None"
  shows "IDB_update applyPatch now store k patch ikc s
           = (Inr k, s\<lparr>db := (db s)(store :=
                 db_put (patch\<lparr>docId := k, lastUpdate := Some now\<rparr>) (db s store))\<rparr>)
         \<and> db_get (db (snd (IDB_update applyPatch now store k patch ikc s)) store) k
           = Some (patch\<lparr>docId := k, lastUpdate := Some now\<rparr>)
         \<and> IDB_delete now' store k hard s = (False, s)
         \<and> (store = STORE_KEY_PAPERS \<longrightarrow> getQuizPaper k s = None)
         \<and> (store = STORE_KEY_QUESTIONS \<longrightarrow> getQuestions [k] s = [None])
         \<and> (store = STORE_KEY_RECORDS \<longrightarrow> getQuizRecord k s = None)"
  using assms
  by (auto simp add: IDB_update_create db_get_put IDB_delete_def getQuizPaper_def
      getQuestions_def getQuizRecord_def)

lemma update_commit_cases:
  "update_commit store k original modified s1 =
     (if (case db_get (db s1 store) k of None \<Rightarrow> None | Some a \<Rightarrow> lastUpdate a)
           = lastUpdate original
      then (Inr k, s1\<lparr>db := (db s1)(store := db_put modified (db s1 store)), cache := []\<rparr>)
      else (Inl DataModified, s1))"
  by (simp add: update_commit_def lru_clear_def)

text \<open>Claim C1, as amended. Let \<open>original\<close> be the record read before the patch is
  computed. The transaction of \<open>update\<close>, in whatever state \<open>sT\<close> it runs, reads the
  record again and compares the two values of \<open>lastUpdate\<close>: if they differ the call
  fails with the error \<open>DataModified\<close> and the state is unchanged; if they are equal
  the patched copy, whose \<open>lastUpdate\<close> is the clock reading \<open>nowA\<close> of the call, is
  stored and the score cache is cleared. Without interference \<open>update\<close> is this
  transaction in the state of the first read. Of two updates that both read
  \<open>original\<close>, the first to commit succeeds and the second fails with \<open>DataModified\<close>,
  leaving the record of the first, provided that the clock reading written by the first
  differs from the \<open>lastUpdate\<close> that both have read.\<close>

theorem optimistic_lock:
  assumes "db_get (db s store) k = Some original"
  shows "(let mA = update_modified applyPatch nowA k patchA ikcA original;
              mB = update_modified applyPatch nowB k patchB ikcB original;
              rA = update_commit store k original mA s;
              rB = update_commit store k original mB (snd rA)
          in update_commit store k original mA sT =
               (if (case db_get (db sT store) k of None \<Rightarrow> None | Some a \<Rightarrow> lastUpdate a)
                     = lastUpdate original
                then (Inr k, sT\<lparr>db := (db sT)(store := db_put mA (db sT store)),
                               cache := []\<rparr>)
                else (Inl DataModified, sT))
             \<and> IDB_update applyPatch nowA store k patchA ikcA s = rA
             \<and> lastUpdate mA = Some nowA
             \<and> (lastUpdate original \<noteq> Some nowA \<longrightarrow>
                  fst rA = Inr k \<and> rB = (Inl DataModified, snd rA)
                  \<and> db_get (db (snd rB) store) k = Some mA))"
  using assms
  by (simp add: Let_def update_commit_cases IDB_update_def db_get_put)

text \<open>Claim C1 as stated fails when the first committer writes the timestamp that both
  updates have read (the record was last written at millisecond 5, the first update runs
  in millisecond 5): the second commit finds the same \<open>lastUpdate\<close> and succeeds as
  well.\<close>

theorem optimistic_lock_same_millisecond:
  "fst (update_commit ''questions'' ''q1'' (demoDoc ''q1'' [''math''] [])
          (update_modified mergePatch 5 ''q1'' (demoDoc ''x'' [''algebra''] []) False
             (demoDoc ''q1'' [''math''] []))
          demoState) = Inr ''q1''
   \<and> fst (update_commit ''questions'' ''q1'' (demoDoc ''q1'' [''math''] [])
          (update_modified mergePatch 6 ''q1'' (demoDoc ''x'' [''logic''] []) False
             (demoDoc ''q1'' [''math''] []))
          (snd (update_commit ''questions'' ''q1'' (demoDoc ''q1'' [''math''] [])
                  (update_modified mergePatch 5 ''q1'' (demoDoc ''x'' [''algebra''] []) False
                     (demoDoc ''q1'' [''math''] []))
                  demoState))) = Inr ''q1''"
  by (simp add: update_commit_cases demoState_def demoDoc_def update_modified_def
      mergePatch_def Let_def)

theorem optimistic_lock_witness:
  "db_get (db demoState ''questions'') ''q1'' = Some (demoDoc ''q1'' [''math''] [])
   \<and> lastUpdate (demoDoc ''q1'' [''math''] []) \<noteq> Some 6
   \<and> update_commit ''questions'' ''q1'' (demoDoc ''q1'' [''math''] [])
        (update_modified mergePatch 7 ''q1'' (demoDoc ''x'' [''logic''] []) False
           (demoDoc ''q1'' [''math''] []))
        (snd (update_commit ''questions'' ''q1'' (demoDoc ''q1'' [''math''] [])
                (update_modified mergePatch 6 ''q1'' (demoDoc ''x'' [''algebra''] []) False
                   (demoDoc ''q1'' [''math''] []))
                demoState))
      = (Inl DataModified,
         snd (update_commit ''questions'' ''q1'' (demoDoc ''q1'' [''math''] [])
                (update_modified mergePatch 6 ''q1'' (demoDoc ''x'' [''algebra''] []) False
                   (demoDoc ''q1'' [''math''] []))
                demoState))"
proof -
  have h: "db_get (db demoState ''questions'') ''q1'' = Some (demoDoc ''q1'' [''math''] [])"
    by (simp add: demoState_def demoDoc_def)
  have t: "lastUpdate (demoDoc ''q1'' [''math''] []) \<noteq> Some 6"
    by (simp add: demoDoc_def)
  note T = optimistic_lock [OF h, where applyPatch = mergePatch and nowA = 6
      and patchA = "demoDoc ''x'' [''algebra''] []" and ikcA = False and nowB = 7
      and patchB = "demoDoc ''x'' [''logic''] []" and ikcB = False and sT = demoState]
  from T t h show ?thesis unfolding Let_def by blast
qed

text \<open>Claim C8 at an id that the store does not hold: \<open>update\<close> succeeds and creates
  the record, and the score cache still holds the ranked list it held before (the create
  path returns before the call of \<open>this.cache.clear()\<close>).\<close>

theorem update_create_keeps_score_cache:
  "db_get (db demoState ''questions'') ''q2'' = None
   \<and> fst (IDB_update mergePatch 9 ''questions'' ''q2'' (demoDoc ''x'' [''logic''] []) False
            demoState) = Inr ''q2''
   \<and> cache (snd (IDB_update mergePatch 9 ''questions'' ''q2'' (demoDoc ''x'' [''logic''] [])
                   False demoState))
     = [((''questions'', [''math''], True, 1.5, 0.75, 1 / 10 ^ 10), [(''q1'', Fin 1)])]"
  by (simp add: IDB_update_def IDB_import_def db_add_def demoState_def demoDoc_def)

theorem update_keeps_id_argument_witness:
  "docId (demoDoc ''x'' [''logic''] []) \<noteq> ''q1''
   \<and> fst (IDB_update mergePatch 9 ''questions'' ''q1'' (demoDoc ''x'' [''logic''] []) False
            demoState) = Inr ''q1''
   \<and> (\<exists>d. db_get (db (snd (IDB_update mergePatch 9 ''questions'' ''q1''
                              (demoDoc ''x'' [''logic''] []) False demoState)) ''questions'')
            ''q1'' = Some d \<and> docId d = ''q1'')
   \<and> db_get (db (snd (IDB_update mergePatch 9 ''questions'' ''q1''
                       (demoDoc ''x'' [''logic''] []) False demoState)) ''questions'') ''x''
     = None"
proof -
  have "db_get (db demoState ''questions'') ''x'' = None"
    by (simp add: demoState_def demoDoc_def)
  moreover have "docId (demoDoc ''x'' [''logic''] []) \<noteq> ''q1''"
    by (simp add: demoDoc_def)
  ultimately show ?thesis
    using update_keeps_id_argument [of mergePatch 9 "''questions''" "''q1''"
        "demoDoc ''x'' [''logic''] []" False demoState]
    by auto
qed

theorem nonexistent_id_no_error_witness:
  "db_get (db demoState ''questions'') ''q2'' = None
   \<and> fst (IDB_update mergePatch 9 ''questions'' ''q2'' (demoDoc ''x'' [''logic''] []) False
            demoState) = Inr ''q2''
   \<and> IDB_delete 9 ''questions'' ''q2'' False demoState = (False, demoState)
   \<and> getQuestions [''q2''] demoState = [None]"
proof -
  have h: "db_get (db demoState ''questions'') ''q2'' = None"
    by (simp add: demoState_def demoDoc_def)
  show ?thesis
    using nonexistent_id_no_error [OF h, of mergePatch 9 "demoDoc ''x'' [''logic''] []" False
        9 False] h
    by (simp add: STORE_KEY_QUESTIONS_def)
qed

theorem sanitization_frame_witness:
  "snd (sanitizeIndices (demoDoc ''q1'' [''math''] []) True True)
     \<in> set (result (fst (IDB_search specLoadTrieTree [] ''questions'' ''math'' [''math''] True
                          None None 1.5 0.75 (1 / 10 ^ 10) demoState)))
   \<and> (\<exists>d0. d0 \<in> set (db demoState ''questions'')
          \<and> sanitizedFrom d0 (snd (sanitizeIndices (demoDoc ''q1'' [''math''] []) True True)))"
proof -
  have r: "result (fst (IDB_search specLoadTrieTree [] ''questions'' ''math'' [''math''] True
                          None None 1.5 0.75 (1 / 10 ^ 10) demoState))
           = [snd (sanitizeIndices (demoDoc ''q1'' [''math''] []) True True)]"
    by (simp add: IDB_search_def lru_has_def lru_get_def demoState_def fetchPage_def idAt_def
        demoDoc_def Let_def)
  have "\<forall>x \<in> set (result (fst (IDB_search specLoadTrieTree [] ''questions'' ''math''
                          [''math''] True None None 1.5 0.75 (1 / 10 ^ 10) demoState))).
          \<exists>d0 \<in> set (db demoState ''questions''). sanitizedFrom d0 x"
    using sanitization_frame [of specLoadTrieTree "[]" "''questions''" "''math''" "[''math'']"
        True None None "1.5" "0.75" "1 / 10 ^ 10" demoState "''p''" "[]"]
    by blast
  with r show ?thesis by auto
qed

section \<open>The index rebuild and its staleness test\<close>

lemma set_Object_entries: "set (Object_entries obj) = set (AList.clearjunk obj)"
  by (auto simp: Object_entries_def Let_def)

lemma distinct_map_sort_key: "distinct (map g (sort_key f xs)) = distinct (map g xs)"
  by (simp add: distinct_map)

lemma distinct_Object_entries: "distinct (map fst (Object_entries obj))"
proof -
  let ?own = "AList.clearjunk obj"
  have d: "distinct (map fst ?own)" by simp
  have a: "distinct (map fst (filter (\<lambda>e. isArrayIndex (fst e)) ?own))"
    using d by (rule distinct_map_filter)
  have b: "distinct (map fst (filter (\<lambda>e. \<not> isArrayIndex (fst e)) ?own))"
    using d by (rule distinct_map_filter)
  show ?thesis
    unfolding Object_entries_def Let_def map_append distinct_append distinct_map_sort_key
    using a b by auto
qed

lemma map_of_Object_entries: "map_of (Object_entries obj) = map_of obj"
proof -
  have "map_of (Object_entries obj) = map_of (AList.clearjunk obj)"
    using map_of_inject_set [OF distinct_Object_entries, of "AList.clearjunk obj" obj]
    by (simp add: set_Object_entries)
  then show ?thesis by (simp add: map_of_clearjunk)
qed

lemma distinct_Object_keys: "distinct (Object_keys obj)"
  by (simp add: Object_keys_def distinct_Object_entries)

lemma set_Object_keys: "set (Object_keys obj) = fst ` set obj"
  by (simp add: Object_keys_def set_Object_entries dom_clearjunk)

lemma Object_entries_Nil [simp]: "Object_entries [] = []"
  by (simp add: Object_entries_def)

lemma reindex_fields [simp]:
  "docId (reindex gen excl now d) = docId d"
  "deleted (reindex gen excl now d) = deleted d"
  "lastUpdate (reindex gen excl now d) = lastUpdate d"
  "tags (reindex gen excl now d) = tags d"
  "categories (reindex gen excl now d) = categories d"
  "doc.more (reindex gen excl now d) = doc.more d"
  "keywordsUpdatedTime (reindex gen excl now d) = Some now"
  "keywordsList (reindex gen excl now d) = Some (fst (gen excl d))"
  "keywordsFrequency (reindex gen excl now d) = Some (snd (gen excl d))"
  "tagsFrequency (reindex gen excl now d)
     = Some (buildTagFreq (case tags d of None \<Rightarrow> [] | Some ts \<Rightarrow> ts)
               (case categories d of None \<Rightarrow> [] | Some cs \<Rightarrow> cs))"
  by (simp_all add: reindex_def Let_def)

lemma account_updated [simp]:
  "account (acc\<lparr>updated := u\<rparr>) d = (account acc d)\<lparr>updated := u\<rparr>"
  by (simp add: account_def)

lemma updated_account [simp]: "updated (account acc d) = updated acc"
  by (simp add: account_def)

lemma foldl_account_updated:
  "foldl account (acc\<lparr>updated := u\<rparr>) ds = (foldl account acc ds)\<lparr>updated := u\<rparr>"
  by (induction ds arbitrary: acc) simp_all

lemma updated_foldl_account [simp]: "updated (foldl account acc ds) = updated acc"
  by (induction ds arbitrary: acc) simp_all

lemma scanCursor_ids:
  "map docId (fst (scanCursor gen clock force excl docs n acc)) = map docId docs"
  by (induction docs arbitrary: n acc) (simp_all add: Let_def)

lemma scanCursor_length:
  "length (fst (scanCursor gen clock force excl docs n acc)) = length docs"
  using scanCursor_ids [of gen clock force excl docs n acc] by (metis length_map)

lemma scanCursor_acc:
  "snd (snd (scanCursor gen clock force excl docs n acc))
   = (foldl account acc (fst (scanCursor gen clock force excl docs n acc)))
       \<lparr>updated := updated acc @ map docId (filter (needsReindex force) docs)\<rparr>"
proof (induction docs arbitrary: n acc)
  case Nil
  then show ?case by simp
next
  case (Cons d docs)
  show ?case
    by (simp add: Let_def Cons.IH foldl_account_updated)
qed

lemma scanCursor_fst_acc:
  "fst (scanCursor gen clock force excl docs n acc)
   = fst (scanCursor gen clock force excl docs n acc')"
  by (induction docs arbitrary: n acc acc') (simp_all add: Let_def)

lemma scanCursor_noop:
  "\<forall>d \<in> set docs. \<not> needsReindex force d \<Longrightarrow>
   scanCursor gen clock force excl docs n acc = (docs, n, foldl account acc docs)"
  by (induction docs arbitrary: n acc) (simp_all add: Let_def)

lemma needsReindex_False_force: "needsReindex False d \<Longrightarrow> needsReindex force d"
  by (simp add: needsReindex_def)

lemma reindex_not_stale:
  assumes "notAhead clock d"
  shows "\<not> needsReindex False (reindex gen excl (clock m) d)"
proof (cases "deleted d = Some True")
  case True
  then show ?thesis by (simp add: needsReindex_def)
next
  case False
  show ?thesis
  proof (cases "lastUpdate d")
    case None
    then show ?thesis by (simp add: needsReindex_def)
  next
    case (Some t)
    with False assms have "t \<le> clock m" by (simp add: notAhead_def)
    with Some show ?thesis by (simp add: needsReindex_def)
  qed
qed

lemma scanCursor_stored:
  "d' \<in> set (fst (scanCursor gen clock force excl docs n acc)) \<Longrightarrow>
   \<exists>d \<in> set docs. (\<not> needsReindex force d \<and> d' = d)
                \<or> (needsReindex force d \<and> (\<exists>m. d' = reindex gen excl (clock m) d))"
proof (induction docs arbitrary: n acc)
  case Nil
  then show ?case by simp
next
  case (Cons d docs)
  then show ?case
    by (auto simp: Let_def split: if_splits)
qed

lemma scanCursor_not_stale:
  assumes "list_all (notAhead clock) docs"
    and "d' \<in> set (fst (scanCursor gen clock force excl docs n acc))"
  shows "\<not> needsReindex False d'"
proof -
  from scanCursor_stored [OF assms(2)] obtain d where d: "d \<in> set docs"
    and c: "(\<not> needsReindex force d \<and> d' = d)
            \<or> (needsReindex force d \<and> (\<exists>m. d' = reindex gen excl (clock m) d))"
    by blast
  from c show ?thesis
  proof
    assume "\<not> needsReindex force d \<and> d' = d"
    then show ?thesis using needsReindex_False_force by blast
  next
    assume "needsReindex force d \<and> (\<exists>m. d' = reindex gen excl (clock m) d)"
    then obtain m where "d' = reindex gen excl (clock m) d" by blast
    then show ?thesis using assms(1) d by (simp add: reindex_not_stale list_all_iff)
  qed
qed

lemma bm25Body_updated [simp]: "bm25Body bt (acc\<lparr>updated := u\<rparr>) = bm25Body bt acc"
  by (simp add: bm25Body_def)

lemma fst_IDB_buildIndices:
  "fst (IDB_buildIndices gen bt clock n store force excl s)
   = map docId (filter (needsReindex force) (db s store))"
  by (simp add: IDB_buildIndices_def Let_def scanCursor_acc emptyScan_def)

lemma db_IDB_buildIndices:
  "db (snd (snd (IDB_buildIndices gen bt clock n store force excl s)))
   = (db s)(store := fst (scanCursor gen clock force excl (db s store) n emptyScan))"
  by (simp add: IDB_buildIndices_def Let_def)

lemma general_IDB_buildIndices:
  "general (snd (snd (IDB_buildIndices gen bt clock n store force excl s)))
   = (general s)(''bm25_'' @ store \<mapsto>
        bm25Body bt (foldl account emptyScan
          (fst (scanCursor gen clock force excl (db s store) n emptyScan))))"
  by (simp add: IDB_buildIndices_def Let_def scanCursor_acc)

lemma cache_IDB_buildIndices [simp]:
  "cache (snd (snd (IDB_buildIndices gen bt clock n store force excl s))) = cache s"
  by (simp add: IDB_buildIndices_def Let_def)

lemma IDB_buildIndices_noop:
  assumes "\<forall>d \<in> set (db s store). \<not> needsReindex False d"
    and "general s (''bm25_'' @ store)
         = Some (bm25Body bt (foldl account emptyScan (db s store)))"
  shows "IDB_buildIndices gen bt clock n store False excl s = ([], n, s)"
proof -
  have "(general s)(''bm25_'' @ store \<mapsto> bm25Body bt (foldl account emptyScan (db s store)))
        = general s"
    using assms(2) by (simp add: fun_upd_idem)
  then show ?thesis
    using assms(1) by (simp add: IDB_buildIndices_def Let_def scanCursor_noop emptyScan_def)
qed

lemma refresh_noop:
  assumes "indexed bt s"
  shows "refreshSearchIndices gen bt clock False s = (0, s)"
  using assms
  by (simp add: refreshSearchIndices_def Let_def indexed_def IDB_buildIndices_noop list_all_iff
      lru_clear_def)

lemma fst_refreshSearchIndices:
  "fst (refreshSearchIndices gen bt clock force s)
   = length (filter (needsReindex force) (db s STORE_KEY_QUESTIONS))
     + length (filter (needsReindex force) (db s STORE_KEY_PAPERS))"
  by (simp add: refreshSearchIndices_def Let_def fst_IDB_buildIndices db_IDB_buildIndices
      STORE_KEY_QUESTIONS_def STORE_KEY_PAPERS_def)

lemma refresh_indexed:
  assumes hq: "list_all (notAhead clock) (db s STORE_KEY_QUESTIONS)"
    and hp: "list_all (notAhead clock) (db s STORE_KEY_PAPERS)"
  shows "indexed bt (snd (refreshSearchIndices gen bt clock force s))"
proof -
  let ?r1 = "IDB_buildIndices gen bt clock 0 STORE_KEY_QUESTIONS force [''id'', ''keywords''] s"
  let ?s1 = "snd (snd ?r1)"
  let ?r2 = "IDB_buildIndices gen bt clock (fst (snd ?r1)) STORE_KEY_PAPERS force
               [''id'', ''questions'', ''keywords''] ?s1"
  let ?s2 = "snd (snd ?r2)"
  have ne: "STORE_KEY_QUESTIONS \<noteq> STORE_KEY_PAPERS"
    by (simp add: STORE_KEY_QUESTIONS_def STORE_KEY_PAPERS_def)
  have dbq: "db ?s2 STORE_KEY_QUESTIONS
             = fst (scanCursor gen clock force [''id'', ''keywords''] (db s STORE_KEY_QUESTIONS)
                      0 emptyScan)"
    using ne by (simp add: db_IDB_buildIndices)
  have dbp: "db ?s2 STORE_KEY_PAPERS
             = fst (scanCursor gen clock force [''id'', ''questions'', ''keywords'']
                      (db s STORE_KEY_PAPERS) (fst (snd ?r1)) emptyScan)"
    using ne by (simp add: db_IDB_buildIndices)
  have gq: "general ?s2 (''bm25_'' @ STORE_KEY_QUESTIONS)
            = Some (bm25Body bt (foldl account emptyScan (db ?s2 STORE_KEY_QUESTIONS)))"
    using ne by (simp add: general_IDB_buildIndices db_IDB_buildIndices)
  have gp: "general ?s2 (''bm25_'' @ STORE_KEY_PAPERS)
            = Some (bm25Body bt (foldl account emptyScan (db ?s2 STORE_KEY_PAPERS)))"
    using ne by (simp add: general_IDB_buildIndices db_IDB_buildIndices)
  have nq: "list_all (\<lambda>d. \<not> needsReindex False d) (db ?s2 STORE_KEY_QUESTIONS)"
    unfolding dbq list_all_iff using scanCursor_not_stale [OF hq] by blast
  have np: "list_all (\<lambda>d. \<not> needsReindex False d) (db ?s2 STORE_KEY_PAPERS)"
    unfolding dbp list_all_iff using scanCursor_not_stale [OF hp] by blast
  show ?thesis
    using gq gp nq np
    by (simp add: indexed_def refreshSearchIndices_def Let_def lru_clear_def)
qed

lemma needsReindex_words:
  "needsReindex force d \<longleftrightarrow>
     force \<or> (deleted d \<noteq> Some True \<and>
       (keywordsList d = None \<or> keywordsUpdatedTime d = None
        \<or> (\<exists>u t. keywordsUpdatedTime d = Some u \<and> lastUpdate d = Some t \<and> u < t)))"
  by (auto simp: needsReindex_def split: option.splits)

lemma db_refreshSearchIndices:
  "db (snd (refreshSearchIndices gen bt clock force s)) STORE_KEY_QUESTIONS
   = fst (scanCursor gen clock force [''id'', ''keywords''] (db s STORE_KEY_QUESTIONS) 0
            emptyScan)"
  by (simp add: refreshSearchIndices_def Let_def db_IDB_buildIndices
      STORE_KEY_QUESTIONS_def STORE_KEY_PAPERS_def)

lemma db_refreshSearchIndices_papers:
  "db (snd (refreshSearchIndices gen bt clock force s)) STORE_KEY_PAPERS
   = fst (scanCursor gen clock force [''id'', ''questions'', ''keywords'']
            (db s STORE_KEY_PAPERS)
            (fst (snd (IDB_buildIndices gen bt clock 0 STORE_KEY_QUESTIONS force
                         [''id'', ''keywords''] s))) emptyScan)"
  by (simp add: refreshSearchIndices_def Let_def db_IDB_buildIndices
      STORE_KEY_QUESTIONS_def STORE_KEY_PAPERS_def)

text \<open>Claim C6, as amended. \<open>_buildIndices\<close> indexes exactly the objects for which
  \<open>force\<close> holds, or that are not soft-deleted and whose keywords or
  \<open>keywordsUpdatedTime\<close> are absent or whose \<open>keywordsUpdatedTime\<close> is less than their
  \<open>lastUpdate\<close>; \<open>refreshSearchIndices\<close> returns the number of such objects in the two
  stores. If no live document carries a \<open>lastUpdate\<close> later than the clock readings of
  the call, a call with \<open>force = false\<close> that follows it at once returns 0 and leaves
  the whole state (every stored document and both persisted caches) as the first call
  left it.\<close>

theorem reindex_condition_and_idempotence:
  assumes "list_all (notAhead clock) (db s STORE_KEY_QUESTIONS)"
    and "list_all (notAhead clock) (db s STORE_KEY_PAPERS)"
  shows "fst (IDB_buildIndices gen bt clock n store force excl s)
           = map docId (filter (needsReindex force) (db s store))
         \<and> (needsReindex force d \<longleftrightarrow>
              force \<or> (deleted d \<noteq> Some True \<and>
                (keywordsList d = None \<or> keywordsUpdatedTime d = None
                 \<or> (\<exists>u t. keywordsUpdatedTime d = Some u \<and> lastUpdate d = Some t \<and> u < t))))
         \<and> fst (refreshSearchIndices gen bt clock force s)
           = length (filter (needsReindex force) (db s STORE_KEY_QUESTIONS))
             + length (filter (needsReindex force) (db s STORE_KEY_PAPERS))
         \<and> refreshSearchIndices gen bt clock' False
             (snd (refreshSearchIndices gen bt clock force s))
           = (0, snd (refreshSearchIndices gen bt clock force s))"
proof (intro conjI)
  show "fst (IDB_buildIndices gen bt clock n store force excl s)
        = map docId (filter (needsReindex force) (db s store))"
    by (rule fst_IDB_buildIndices)
  show "needsReindex force d \<longleftrightarrow>
          force \<or> (deleted d \<noteq> Some True \<and>
            (keywordsList d = None \<or> keywordsUpdatedTime d = None
             \<or> (\<exists>u t. keywordsUpdatedTime d = Some u \<and> lastUpdate d = Some t \<and> u < t)))"
    by (rule needsReindex_words)
  show "fst (refreshSearchIndices gen bt clock force s)
        = length (filter (needsReindex force) (db s STORE_KEY_QUESTIONS))
          + length (filter (needsReindex force) (db s STORE_KEY_PAPERS))"
    by (rule fst_refreshSearchIndices)
  show "refreshSearchIndices gen bt clock' False
          (snd (refreshSearchIndices gen bt clock force s))
        = (0, snd (refreshSearchIndices gen bt clock force s))"
    by (rule refresh_noop [OF refresh_indexed [OF assms]])
qed

text \<open>Claim C6 as stated fails for a document whose \<open>lastUpdate\<close> (5) is later than
  the clock reading (3) of the first call: the first call stamps it with 3, and the
  repeated call indexes it again.\<close>

theorem reindex_again_when_stamp_ahead:
  "fst (refreshSearchIndices noKeywords specBuildTrieTree clockBehind False
          (snd (refreshSearchIndices noKeywords specBuildTrieTree clockBehind False
                  demoState))) = 1"
proof -
  have q: "db demoState STORE_KEY_QUESTIONS = [demoDoc ''q1'' [''math''] []]"
    by (simp add: demoState_def STORE_KEY_QUESTIONS_def)
  have p: "db demoState STORE_KEY_PAPERS = []"
    by (simp add: demoState_def STORE_KEY_PAPERS_def)
  have n: "needsReindex False (demoDoc ''q1'' [''math''] [])"
    by (simp add: needsReindex_def demoDoc_def)
  have n': "needsReindex False
              (reindex noKeywords [''id'', ''keywords''] (clockBehind 0)
                 (demoDoc ''q1'' [''math''] []))"
    by (simp add: needsReindex_def demoDoc_def clockBehind_def noKeywords_def)
  show ?thesis
    by (simp add: fst_refreshSearchIndices db_refreshSearchIndices
        db_refreshSearchIndices_papers q p n n' Let_def)
qed

theorem reindex_condition_and_idempotence_witness:
  "list_all (notAhead clockAfter) (db demoState STORE_KEY_QUESTIONS)
   \<and> list_all (notAhead clockAfter) (db demoState STORE_KEY_PAPERS)
   \<and> fst (refreshSearchIndices noKeywords specBuildTrieTree clockAfter False demoState) = 1
   \<and> refreshSearchIndices noKeywords specBuildTrieTree clockAfter False
        (snd (refreshSearchIndices noKeywords specBuildTrieTree clockAfter False demoState))
      = (0, snd (refreshSearchIndices noKeywords specBuildTrieTree clockAfter False demoState))"
proof -
  have q: "list_all (notAhead clockAfter) (db demoState STORE_KEY_QUESTIONS)"
    by (simp add: demoState_def STORE_KEY_QUESTIONS_def notAhead_def demoDoc_def clockAfter_def)
  have p: "list_all (notAhead clockAfter) (db demoState STORE_KEY_PAPERS)"
    by (simp add: demoState_def STORE_KEY_PAPERS_def)
  have n: "filter (needsReindex False) (db demoState STORE_KEY_QUESTIONS)
           = [demoDoc ''q1'' [''math''] []]"
    by (simp add: demoState_def STORE_KEY_QUESTIONS_def needsReindex_def demoDoc_def)
  have e: "db demoState STORE_KEY_PAPERS = []"
    by (simp add: demoState_def STORE_KEY_PAPERS_def)
  note T = reindex_condition_and_idempotence [OF q p, where gen = noKeywords
      and bt = specBuildTrieTree and force = False and clock' = clockAfter and n = 0
      and store = STORE_KEY_QUESTIONS and excl = "[]" and d = "demoDoc ''q1'' [''math''] []"]
  from T q p n e show ?thesis by simp
qed

section \<open>Document frequencies and the idf floor\<close>

lemma map_of_setProp:
  "map_of (setProp key v m) k =
     (if key = ''__proto__'' \<and> map_of m key = None then map_of m k
      else if k = key then Some v else map_of m k)"
  unfolding setProp_def by (simp only: update_conv' fun_upd_apply split: if_splits) auto

lemma setProp_no_proto:
  "map_of m ''__proto__'' = None \<Longrightarrow> map_of (setProp key v m) ''__proto__'' = None"
  by (simp add: map_of_setProp)

lemma map_of_setProp_fresh:
  "map_of m ''__proto__'' = None \<Longrightarrow>
   map_of (setProp key v m) k = (if k = key \<and> key \<noteq> ''__proto__'' then Some v else map_of m k)"
  by (auto simp: map_of_setProp)

lemma isProtoKey_proto [simp]: "isProtoKey ''__proto__''"
  by (simp add: isProtoKey_def Object_prototype_def)

lemma getProp_ordinary:
  "\<not> isProtoKey k \<Longrightarrow>
   getProp m k = (case map_of m k of Some v \<Rightarrow> Own v | None \<Rightarrow> Undefined)"
  by (simp add: getProp_def isProtoKey_def split: option.splits)

lemma bump_no_proto:
  "map_of m ''__proto__'' = None \<Longrightarrow> map_of (bump m key) ''__proto__'' = None"
  by (simp add: bump_def setProp_no_proto)

lemma foldl_bump_no_proto:
  "map_of m ''__proto__'' = None \<Longrightarrow> map_of (foldl bump m keys) ''__proto__'' = None"
  by (induction keys arbitrary: m) (simp_all add: bump_no_proto)

lemma countKeys_no_proto:
  "map_of m ''__proto__'' = None \<Longrightarrow> map_of (countKeys m obj) ''__proto__'' = None"
  by (simp add: countKeys_def foldl_bump_no_proto)

lemma increment_ordinary:
  assumes "\<not> isProtoKey k" "\<forall>s. map_of m k \<noteq> Some (Str s)"
  shows "increment (getProp m k) = Num (cnt m k + 1)"
proof (cases "map_of m k")
  case None
  then show ?thesis using assms(1) by (simp add: getProp_ordinary increment_def cnt_def)
next
  case (Some v)
  with assms(2) obtain n where "v = Num n" by (cases v) auto
  with Some show ?thesis using assms(1) by (simp add: getProp_ordinary increment_def cnt_def)
qed

lemma map_of_bump:
  assumes "\<not> isProtoKey k" "map_of m ''__proto__'' = None" "\<forall>s. map_of m k \<noteq> Some (Str s)"
  shows "map_of (bump m key) k = (if k = key then Some (Num (cnt m k + 1)) else map_of m k)"
proof -
  have "k \<noteq> ''__proto__''" using assms(1) by auto
  then show ?thesis
    using assms by (auto simp: bump_def map_of_setProp_fresh increment_ordinary)
qed

lemma map_of_foldl_bump:
  assumes "distinct keys" "\<not> isProtoKey k" "map_of m ''__proto__'' = None"
    "\<forall>s. map_of m k \<noteq> Some (Str s)"
  shows "map_of (foldl bump m keys) k
         = (if k \<in> set keys then Some (Num (cnt m k + 1)) else map_of m k)"
  using assms
proof (induction keys arbitrary: m)
  case Nil
  then show ?case by simp
next
  case (Cons key keys)
  have p: "map_of (bump m key) ''__proto__'' = None"
    using Cons.prems(3) by (rule bump_no_proto)
  have b: "map_of (bump m key) k = (if k = key then Some (Num (cnt m k + 1)) else map_of m k)"
    using Cons.prems(2-4) by (rule map_of_bump)
  then have n: "\<forall>s. map_of (bump m key) k \<noteq> Some (Str s)"
    using Cons.prems(4) by simp
  have d: "distinct keys" using Cons.prems(1) by simp
  have "map_of (foldl bump (bump m key) keys) k
        = (if k \<in> set keys then Some (Num (cnt (bump m key) k + 1)) else map_of (bump m key) k)"
    using d Cons.prems(2) p n by (rule Cons.IH)
  then show ?case using b Cons.prems(1) by (auto simp: cnt_def)
qed

lemma map_of_countKeys:
  assumes "\<not> isProtoKey k" "map_of m ''__proto__'' = None" "\<forall>s. map_of m k \<noteq> Some (Str s)"
  shows "map_of (countKeys m obj) k
         = (if k \<in> keysOf obj then Some (Num (cnt m k + 1)) else map_of m k)"
proof -
  have "map_of (foldl bump m (Object_keys (case obj of None \<Rightarrow> [] | Some f \<Rightarrow> f))) k
        = (if k \<in> set (Object_keys (case obj of None \<Rightarrow> [] | Some f \<Rightarrow> f))
           then Some (Num (cnt m k + 1)) else map_of m k)"
    using distinct_Object_keys assms by (rule map_of_foldl_bump)
  then show ?thesis
    by (simp add: countKeys_def set_Object_keys keysOf_def split: option.splits)
qed

lemma map_of_foldl_countKeys:
  assumes "\<not> isProtoKey k" "map_of m ''__proto__'' = None" "\<forall>s. map_of m k \<noteq> Some (Str s)"
  shows "map_of (foldl (\<lambda>m d. countKeys m (F d)) m ds) k =
     (if map_of m k = None \<and> filter (\<lambda>d. k \<in> keysOf (F d)) ds = [] then None
      else Some (Num (cnt m k + length (filter (\<lambda>d. k \<in> keysOf (F d)) ds))))"
  using assms
proof (induction ds arbitrary: m)
  case Nil
  then show ?case
    by (cases "map_of m k") (auto simp: cnt_def split: counted.splits)
next
  case (Cons d ds)
  have p: "map_of (countKeys m (F d)) ''__proto__'' = None"
    using Cons.prems(2) by (rule countKeys_no_proto)
  have c: "map_of (countKeys m (F d)) k
           = (if k \<in> keysOf (F d) then Some (Num (cnt m k + 1)) else map_of m k)"
    using Cons.prems by (rule map_of_countKeys)
  then have n: "\<forall>s. map_of (countKeys m (F d)) k \<noteq> Some (Str s)"
    using Cons.prems(3) by simp
  have "map_of (foldl (\<lambda>m d. countKeys m (F d)) (countKeys m (F d)) ds) k =
     (if map_of (countKeys m (F d)) k = None \<and> filter (\<lambda>d. k \<in> keysOf (F d)) ds = [] then None
      else Some (Num (cnt (countKeys m (F d)) k
                      + length (filter (\<lambda>d. k \<in> keysOf (F d)) ds))))"
    using Cons.prems(1) p n by (rule Cons.IH)
  then show ?case using c by (simp add: cnt_def)
qed

lemma wordAppearedV_foldl_account:
  "wordAppearedV (foldl account acc ds)
   = foldl (\<lambda>m d. countKeys m (keywordsFrequency d)) (wordAppearedV acc) ds"
  by (induction ds arbitrary: acc) (simp_all add: account_def)

lemma tagAppearedV_foldl_account:
  "tagAppearedV (foldl account acc ds)
   = foldl (\<lambda>m d. countKeys m (tagsFrequency d)) (tagAppearedV acc) ds"
  by (induction ds arbitrary: acc) (simp_all add: account_def)

lemma totalDocsV_foldl_account:
  "totalDocsV (foldl account acc ds) = totalDocsV acc + length ds"
  by (induction ds arbitrary: acc) (simp_all add: account_def)

lemma totalLengthTag_foldl_account:
  "totalLengthTag (foldl account acc ds)
   = totalLengthTag acc + sum_list (map (\<lambda>d. optLength (tags d) + optLength (categories d)) ds)"
  by (induction ds arbitrary: acc) (simp_all add: account_def)

lemma map_of_idf_entries:
  "map_of (map (\<lambda>e. (fst e, idfValue N (snd e))) (Object_entries m)) t
   = map_option (idfValue N) (map_of m t)"
proof -
  have "(\<lambda>e::string \<times> counted. (fst e, idfValue N (snd e))) = (\<lambda>(k, v). (k, idfValue N v))"
    by (rule ext) (simp add: case_prod_beta)
  then show ?thesis
    by (simp add: map_of_map map_of_Object_entries)
qed

lemma idfOf_floor: "1 / 10 ^ 8 \<le> idfOf N n"
  by (simp add: idfOf_def)

lemma idfOf_all_documents: "idfOf N N = 1 / 10 ^ 8"
proof -
  have "(real N - real N + 0.5) / (real N + 0.5) \<le> 1" by simp
  moreover have "0 < (real N - real N + 0.5) / (real N + 0.5)" by simp
  ultimately have "ln ((real N - real N + 0.5) / (real N + 0.5)) \<le> 0"
    using ln_le_zero_iff by blast
  then have "ln ((real N - real N + 0.5) / (real N + 0.5)) \<le> 1 / 10 ^ 8"
    by (rule order_trans) simp
  then show ?thesis unfolding idfOf_def by (rule max_absorb1)
qed

lemma idfValue_count: "n \<le> N \<Longrightarrow> idfValue N (Num n) = Fin (idfOf N n)"
  by simp

lemma general_IDB_buildIndices_key:
  "general (snd (snd (IDB_buildIndices gen bt clock n store force excl s))) (''bm25_'' @ store)
   = Some (bm25Body bt (foldl account emptyScan
       (db (snd (snd (IDB_buildIndices gen bt clock n store force excl s))) store)))"
  by (subst general_IDB_buildIndices, subst db_IDB_buildIndices) simp

lemma general_IDB_buildIndices_bm25Of:
  "general (snd (snd (IDB_buildIndices gen bt clock n store force excl s))) (''bm25_'' @ store)
   = Some (bm25Of bt (db (snd (snd (IDB_buildIndices gen bt clock n store force excl s)))
                        store))"
  unfolding bm25Of_def by (rule general_IDB_buildIndices_key)

lemma bm25Of_totalDocs: "totalDocs (bm25Of bt docs) = length docs"
  by (simp add: bm25Of_def bm25Body_def Let_def totalDocsV_foldl_account emptyScan_def)

lemma bm25Of_word:
  assumes "\<not> isProtoKey t"
  shows "map_of (wordAppeared (bm25Of bt docs)) t =
     (if length (filter (\<lambda>d. t \<in> keysOf (keywordsFrequency d)) docs) = 0 then None
      else Some (Num (length (filter (\<lambda>d. t \<in> keysOf (keywordsFrequency d)) docs))))"
  using map_of_foldl_countKeys [OF assms, of "[]" keywordsFrequency docs]
  by (simp add: bm25Of_def bm25Body_def Let_def wordAppearedV_foldl_account emptyScan_def cnt_def)

lemma bm25Of_tag:
  assumes "\<not> isProtoKey t"
  shows "map_of (tagAppeared (bm25Of bt docs)) t =
     (if length (filter (\<lambda>d. t \<in> keysOf (tagsFrequency d)) docs) = 0 then None
      else Some (Num (length (filter (\<lambda>d. t \<in> keysOf (tagsFrequency d)) docs))))"
  using map_of_foldl_countKeys [OF assms, of "[]" tagsFrequency docs]
  by (simp add: bm25Of_def bm25Body_def Let_def tagAppearedV_foldl_account emptyScan_def cnt_def)

lemma bm25Of_idf_entries:
  "map_of (idf (bm25Of bt docs)) t
     = map_option (idfValue (length docs)) (map_of (wordAppeared (bm25Of bt docs)) t)"
  "map_of (idfTag (bm25Of bt docs)) t
     = map_option (idfValue (length docs)) (map_of (tagAppeared (bm25Of bt docs)) t)"
  by (simp_all add: bm25Of_def bm25Body_def Let_def totalDocsV_foldl_account
      map_of_idf_entries emptyScan_def)

lemma bm25Of_idf:
  assumes "\<not> isProtoKey t"
  shows "map_of (idf (bm25Of bt docs)) t =
     (if length (filter (\<lambda>d. t \<in> keysOf (keywordsFrequency d)) docs) = 0 then None
      else Some (Fin (idfOf (length docs)
                   (length (filter (\<lambda>d. t \<in> keysOf (keywordsFrequency d)) docs)))))"
proof -
  have "idfValue (length docs)
          (Num (length (filter (\<lambda>d. t \<in> keysOf (keywordsFrequency d)) docs)))
        = Fin (idfOf (length docs)
                 (length (filter (\<lambda>d. t \<in> keysOf (keywordsFrequency d)) docs)))"
    by (rule idfValue_count) (rule length_filter_le)
  then show ?thesis
    unfolding bm25Of_idf_entries bm25Of_word [OF assms] by (simp del: idfValue.simps)
qed

lemma bm25Of_idfTag:
  assumes "\<not> isProtoKey t"
  shows "map_of (idfTag (bm25Of bt docs)) t =
     (if length (filter (\<lambda>d. t \<in> keysOf (tagsFrequency d)) docs) = 0 then None
      else Some (Fin (idfOf (length docs)
                   (length (filter (\<lambda>d. t \<in> keysOf (tagsFrequency d)) docs)))))"
proof -
  have "idfValue (length docs)
          (Num (length (filter (\<lambda>d. t \<in> keysOf (tagsFrequency d)) docs)))
        = Fin (idfOf (length docs)
                 (length (filter (\<lambda>d. t \<in> keysOf (tagsFrequency d)) docs)))"
    by (rule idfValue_count) (rule length_filter_le)
  then show ?thesis
    unfolding bm25Of_idf_entries bm25Of_tag [OF assms] by (simp del: idfValue.simps)
qed

lemma bump_inherited:
  assumes "isProtoKey t" "map_of m ''__proto__'' = None"
    "map_of m t = None \<or> (\<exists>s. s \<noteq> [] \<and> map_of m t = Some (Str s))"
  shows "map_of (bump m key) t = None
         \<or> (\<exists>s. s \<noteq> [] \<and> map_of (bump m key) t = Some (Str s))"
proof (cases "t = key \<and> key \<noteq> ''__proto__''")
  case False
  then have "map_of (bump m key) t = map_of m t"
    using assms(2) by (auto simp: bump_def map_of_setProp_fresh)
  with assms(3) show ?thesis by simp
next
  case True
  then have b: "map_of (bump m key) t = Some (increment (getProp m t))"
    using assms(2) by (auto simp: bump_def map_of_setProp_fresh)
  from assms(3) have "\<exists>s. s \<noteq> [] \<and> increment (getProp m t) = Str s"
  proof
    assume n: "map_of m t = None"
    from assms(1) obtain w where "map_of Object_prototype t = Some w"
      by (auto simp: isProtoKey_def)
    with n show ?thesis by (simp add: getProp_def increment_def)
  next
    assume "\<exists>s. s \<noteq> [] \<and> map_of m t = Some (Str s)"
    then show ?thesis by (auto simp: getProp_def increment_def)
  qed
  with b show ?thesis by auto
qed

lemma foldl_bump_inherited:
  assumes "isProtoKey t" "map_of m ''__proto__'' = None"
    "map_of m t = None \<or> (\<exists>s. s \<noteq> [] \<and> map_of m t = Some (Str s))"
  shows "map_of (foldl bump m keys) t = None
         \<or> (\<exists>s. s \<noteq> [] \<and> map_of (foldl bump m keys) t = Some (Str s))"
  using assms(2,3)
proof (induction keys arbitrary: m)
  case Nil
  then show ?case by simp
next
  case (Cons key keys)
  show ?case
    unfolding foldl_Cons
    by (rule Cons.IH [OF bump_no_proto [OF Cons.prems(1)]
          bump_inherited [OF assms(1) Cons.prems]])
qed

lemma foldl_countKeys_inherited:
  assumes "isProtoKey t" "map_of m ''__proto__'' = None"
    "map_of m t = None \<or> (\<exists>s. s \<noteq> [] \<and> map_of m t = Some (Str s))"
  shows "map_of (foldl (\<lambda>m d. countKeys m (F d)) m ds) t = None
         \<or> (\<exists>s. s \<noteq> [] \<and> map_of (foldl (\<lambda>m d. countKeys m (F d)) m ds) t = Some (Str s))"
  using assms(2,3)
proof (induction ds arbitrary: m)
  case Nil
  then show ?case by simp
next
  case (Cons d ds)
  have p: "map_of (countKeys m (F d)) ''__proto__'' = None"
    using Cons.prems(1) by (rule countKeys_no_proto)
  have i: "map_of (countKeys m (F d)) t = None
           \<or> (\<exists>s. s \<noteq> [] \<and> map_of (countKeys m (F d)) t = Some (Str s))"
    unfolding countKeys_def by (rule foldl_bump_inherited [OF assms(1) Cons.prems])
  show ?case
    unfolding foldl_Cons by (rule Cons.IH [OF p i])
qed

text \<open>A term that names an inherited member never has a number as its document
  frequency: its counter, if there is one, is a string and its idf is NaN.\<close>

lemma idf_of_inherited_name:
  assumes "isProtoKey t"
  shows "(map_of (wordAppeared (bm25Of bt docs)) t = None
            \<and> map_of (idf (bm25Of bt docs)) t = None
          \<or> (\<exists>s. map_of (wordAppeared (bm25Of bt docs)) t = Some (Str s))
            \<and> map_of (idf (bm25Of bt docs)) t = Some NaN)
         \<and> (map_of (tagAppeared (bm25Of bt docs)) t = None
            \<and> map_of (idfTag (bm25Of bt docs)) t = None
          \<or> (\<exists>s. map_of (tagAppeared (bm25Of bt docs)) t = Some (Str s))
            \<and> map_of (idfTag (bm25Of bt docs)) t = Some NaN)"
proof -
  have w: "map_of (wordAppeared (bm25Of bt docs)) t = None
           \<or> (\<exists>s. s \<noteq> [] \<and> map_of (wordAppeared (bm25Of bt docs)) t = Some (Str s))"
    using foldl_countKeys_inherited [OF assms, of "[]" keywordsFrequency docs]
    by (simp add: bm25Of_def bm25Body_def Let_def wordAppearedV_foldl_account emptyScan_def)
  have g: "map_of (tagAppeared (bm25Of bt docs)) t = None
           \<or> (\<exists>s. s \<noteq> [] \<and> map_of (tagAppeared (bm25Of bt docs)) t = Some (Str s))"
    using foldl_countKeys_inherited [OF assms, of "[]" tagsFrequency docs]
    by (simp add: bm25Of_def bm25Body_def Let_def tagAppearedV_foldl_account emptyScan_def)
  from w g show ?thesis
    unfolding bm25Of_idf_entries by auto
qed

text \<open>For a term \<open>t\<close> that does not name an inherited member the index rebuild does
  what claim C3 says. After an index rebuild of a store of \<open>N\<close> documents, let \<open>df\<close>
  be the number of stored documents whose \<open>keywordsFrequency\<close> has the key \<open>t\<close> (and
  \<open>dfTag\<close> the same for \<open>tagsFrequency\<close>). The persisted cache holds \<open>totalDocs = N\<close>
  and the count \<open>df\<close> if the term occurs, and then the value
  \<open>idf[t] = max(1e-8, ln((N - df + 0.5) / (df + 0.5)))\<close>, likewise \<open>idfTag\<close>. As
  \<open>df \<le> N\<close> the argument of the logarithm is positive, and the value is at least
  \<open>1e-8\<close>.\<close>

lemma idf_of_ordinary_term:
  assumes "\<not> isProtoKey t"
  shows "(let s' = snd (snd (IDB_buildIndices gen bt clock n store force excl s));
        c = the (general s' (''bm25_'' @ store));
        N = length (db s' store);
        df = length (filter (\<lambda>d. t \<in> keysOf (keywordsFrequency d)) (db s' store));
        dfTag = length (filter (\<lambda>d. t \<in> keysOf (tagsFrequency d)) (db s' store))
    in N = length (db s store) \<and> totalDocs c = N
       \<and> df \<le> N \<and> dfTag \<le> N
       \<and> map_of (wordAppeared c) t = (if df = 0 then None else Some (Num df))
       \<and> map_of (tagAppeared c) t = (if dfTag = 0 then None else Some (Num dfTag))
       \<and> map_of (idf c) t =
           (if df = 0 then None
            else Some (Fin (max (1 / 10 ^ 8)
                         (ln ((real N - real df + 0.5) / (real df + 0.5))))))
       \<and> map_of (idfTag c) t =
           (if dfTag = 0 then None
            else Some (Fin (max (1 / 10 ^ 8)
                         (ln ((real N - real dfTag + 0.5) / (real dfTag + 0.5)))))))"
proof -
  let ?s' = "snd (snd (IDB_buildIndices gen bt clock n store force excl s))"
  let ?docs = "db ?s' store"
  have c: "the (general ?s' (''bm25_'' @ store)) = bm25Of bt ?docs"
    by (simp only: general_IDB_buildIndices_bm25Of option.sel)
  have len: "length ?docs = length (db s store)"
    by (simp add: db_IDB_buildIndices scanCursor_length)
  show ?thesis
    unfolding Let_def c
  proof (intro conjI)
    show "length ?docs = length (db s store)" by (rule len)
    show "totalDocs (bm25Of bt ?docs) = length ?docs" by (rule bm25Of_totalDocs)
    show "length (filter (\<lambda>d. t \<in> keysOf (keywordsFrequency d)) ?docs) \<le> length ?docs"
      by (rule length_filter_le)
    show "length (filter (\<lambda>d. t \<in> keysOf (tagsFrequency d)) ?docs) \<le> length ?docs"
      by (rule length_filter_le)
    show "map_of (wordAppeared (bm25Of bt ?docs)) t =
            (if length (filter (\<lambda>d. t \<in> keysOf (keywordsFrequency d)) ?docs) = 0 then None
             else Some (Num (length (filter (\<lambda>d. t \<in> keysOf (keywordsFrequency d)) ?docs))))"
      using assms by (rule bm25Of_word)
    show "map_of (tagAppeared (bm25Of bt ?docs)) t =
            (if length (filter (\<lambda>d. t \<in> keysOf (tagsFrequency d)) ?docs) = 0 then None
             else Some (Num (length (filter (\<lambda>d. t \<in> keysOf (tagsFrequency d)) ?docs))))"
      using assms by (rule bm25Of_tag)
    show "map_of (idf (bm25Of bt ?docs)) t =
            (if length (filter (\<lambda>d. t \<in> keysOf (keywordsFrequency d)) ?docs) = 0 then None
             else Some (Fin (max (1 / 10 ^ 8)
                    (ln ((real (length ?docs)
                          - real (length (filter (\<lambda>d. t \<in> keysOf (keywordsFrequency d))
                                            ?docs)) + 0.5)
                         / (real (length (filter (\<lambda>d. t \<in> keysOf (keywordsFrequency d))
                                            ?docs)) + 0.5))))))"
      unfolding bm25Of_idf [OF assms] idfOf_def by (rule refl)
    show "map_of (idfTag (bm25Of bt ?docs)) t =
            (if length (filter (\<lambda>d. t \<in> keysOf (tagsFrequency d)) ?docs) = 0 then None
             else Some (Fin (max (1 / 10 ^ 8)
                    (ln ((real (length ?docs)
                          - real (length (filter (\<lambda>d. t \<in> keysOf (tagsFrequency d))
                                            ?docs)) + 0.5)
                         / (real (length (filter (\<lambda>d. t \<in> keysOf (tagsFrequency d))
                                            ?docs)) + 0.5))))))"
      unfolding bm25Of_idfTag [OF assms] idfOf_def by (rule refl)
  qed
qed

lemma not_isProtoKey_math: "\<not> isProtoKey ''math''"
  by (simp add: isProtoKey_def Object_prototype_def)

lemma idf_of_ordinary_term_instance:
  "totalDocs (the (general (snd (snd (IDB_buildIndices noKeywords specBuildTrieTree clockAfter 0
                      ''questions'' True [] demoState))) (''bm25_'' @ ''questions''))) = 1
   \<and> map_of (tagAppeared (the (general (snd (snd (IDB_buildIndices noKeywords specBuildTrieTree
                      clockAfter 0 ''questions'' True [] demoState)))
                      (''bm25_'' @ ''questions'')))) ''math'' = Some (Num 1)
   \<and> map_of (idfTag (the (general (snd (snd (IDB_buildIndices noKeywords specBuildTrieTree
                      clockAfter 0 ''questions'' True [] demoState)))
                      (''bm25_'' @ ''questions'')))) ''math''
     = Some (Fin (max (1 / 10 ^ 8) (ln ((real 1 - real 1 + 0.5) / (real 1 + 0.5)))))"
proof -
  let ?s' = "snd (snd (IDB_buildIndices noKeywords specBuildTrieTree clockAfter 0
                         ''questions'' True [] demoState))"
  let ?d = "reindex noKeywords [] (clockAfter 0) (demoDoc ''q1'' [''math''] [])"
  have d: "db ?s' ''questions'' = [?d]"
    by (simp add: db_IDB_buildIndices demoState_def needsReindex_def Let_def)
  have k: "''math'' \<in> keysOf (tagsFrequency ?d)"
    by (simp add: keysOf_def buildTagFreq_def demoDoc_def setProp_def)
  note T = idf_of_ordinary_term [OF not_isProtoKey_math, where gen = noKeywords
      and bt = specBuildTrieTree and clock = clockAfter
      and n = 0 and store = "''questions''" and force = True and excl = "[]"
      and s = demoState, unfolded Let_def d]
  have f: "length (filter (\<lambda>d. ''math'' \<in> keysOf (tagsFrequency d)) [?d]) = 1"
    using k by simp
  have l: "length [?d] = 1" by simp
  from T have A: "totalDocs (the (general ?s' (''bm25_'' @ ''questions''))) = length [?d]"
    by blast
  from T have B: "map_of (tagAppeared (the (general ?s' (''bm25_'' @ ''questions'')))) ''math''
      = (if length (filter (\<lambda>d. ''math'' \<in> keysOf (tagsFrequency d)) [?d]) = 0 then None
         else Some (Num (length (filter (\<lambda>d. ''math'' \<in> keysOf (tagsFrequency d)) [?d]))))"
    by blast
  from T have C: "map_of (idfTag (the (general ?s' (''bm25_'' @ ''questions'')))) ''math''
      = (if length (filter (\<lambda>d. ''math'' \<in> keysOf (tagsFrequency d)) [?d]) = 0 then None
         else Some (Fin (max (1 / 10 ^ 8)
                (ln ((real (length [?d])
                      - real (length (filter (\<lambda>d. ''math'' \<in> keysOf (tagsFrequency d)) [?d]))
                      + 0.5)
                     / (real (length (filter (\<lambda>d. ''math'' \<in> keysOf (tagsFrequency d)) [?d]))
                        + 0.5))))))"
    by blast
  show ?thesis
    using A B C unfolding f l by simp
qed

lemma not_isArrayIndex_constructor: "\<not> isArrayIndex ''constructor''"
  by (simp add: isArrayIndex_def isDigit_def)

lemma Object_entries_single:
  "\<not> isArrayIndex k \<Longrightarrow> Object_entries [(k, v)] = [(k, v)]"
  by (simp add: Object_entries_def)

lemma db_demoConstructorIndexed:
  "db demoConstructorIndexed ''papers'' = [constructorA, constructorB]"
  by (simp add: demoConstructorIndexed_def db_IDB_buildIndices demoConstructor_def
      constructorA_def constructorB_def needsReindex_def Let_def)

lemma general_demoConstructorIndexed:
  "general demoConstructorIndexed (''bm25_'' @ ''papers'')
   = Some (bm25Of specBuildTrieTree [constructorA, constructorB])"
  unfolding demoConstructorIndexed_def general_IDB_buildIndices_bm25Of
  by (simp only: db_demoConstructorIndexed [unfolded demoConstructorIndexed_def])

lemma tagsFrequency_constructor:
  "tagsFrequency constructorA = Some [(''constructor'', 4)]"
  "tagsFrequency constructorB = Some [(''constructor'', 1)]"
  by (simp_all add: constructorA_def constructorB_def demoDoc_def buildTagFreq_def setProp_def)

lemma tagAppearedV_constructor:
  "tagAppearedV (foldl account emptyScan [constructorA, constructorB])
   = [(''constructor'', Str ''function Object() { [native code] }11'')]"
  by (simp add: account_def emptyScan_def countKeys_def Object_keys_def
      Object_entries_single not_isArrayIndex_constructor tagsFrequency_constructor bump_def
      getProp_def Object_prototype_def increment_def setProp_def)

lemma bm25_constructor:
  "totalDocs (bm25Of specBuildTrieTree [constructorA, constructorB]) = 2"
  "tagAppeared (bm25Of specBuildTrieTree [constructorA, constructorB])
   = [(''constructor'', Str ''function Object() { [native code] }11'')]"
  "idfTag (bm25Of specBuildTrieTree [constructorA, constructorB]) = [(''constructor'', NaN)]"
  "averageDocLengthTag (bm25Of specBuildTrieTree [constructorA, constructorB]) = 1"
  "trieTags (bm25Of specBuildTrieTree [constructorA, constructorB]) = [''constructor'']"
  "trieSizeTags (bm25Of specBuildTrieTree [constructorA, constructorB]) = 1"
proof -
  have l: "totalLengthTag (foldl account emptyScan [constructorA, constructorB]) = 2"
    by (simp add: account_def emptyScan_def constructorA_def constructorB_def
        demoDoc_def optLength_def)
  have t: "totalDocsV (foldl account emptyScan [constructorA, constructorB]) = 2"
    by (simp add: account_def emptyScan_def)
  show "totalDocs (bm25Of specBuildTrieTree [constructorA, constructorB]) = 2"
    by (simp add: bm25Of_totalDocs)
  show "tagAppeared (bm25Of specBuildTrieTree [constructorA, constructorB])
        = [(''constructor'', Str ''function Object() { [native code] }11'')]"
    unfolding bm25Of_def bm25Body_def Let_def Bm25Cache.simps tagAppearedV_constructor ..
  show "idfTag (bm25Of specBuildTrieTree [constructorA, constructorB])
        = [(''constructor'', NaN)]"
    unfolding bm25Of_def bm25Body_def Let_def Bm25Cache.simps tagAppearedV_constructor
    by (simp only: Object_entries_single [OF not_isArrayIndex_constructor] list.map fst_conv
        snd_conv idfValue.simps)
  show "averageDocLengthTag (bm25Of specBuildTrieTree [constructorA, constructorB]) = 1"
    unfolding bm25Of_def bm25Body_def Let_def Bm25Cache.simps t l by simp
  show "trieTags (bm25Of specBuildTrieTree [constructorA, constructorB]) = [''constructor'']"
    unfolding bm25Of_def bm25Body_def Let_def Bm25Cache.simps tagAppearedV_constructor
    by (simp add: specBuildTrieTree_def Object_keys_def
        Object_entries_single [OF not_isArrayIndex_constructor])
  show "trieSizeTags (bm25Of specBuildTrieTree [constructorA, constructorB]) = 1"
    unfolding bm25Of_def bm25Body_def Let_def Bm25Cache.simps tagAppearedV_constructor
    by (simp add: specBuildTrieTree_def Object_keys_def
        Object_entries_single [OF not_isArrayIndex_constructor])
qed

text \<open>Claim C3 on a store of two papers that both carry the term \<open>constructor\<close>, one
  as a category and one as a tag. The index rebuild counts two documents. The counter
  \<open>tagAppeared['constructor']\<close> starts from the member that the empty object inherits
  under this name and ends as the text of that member followed by \<open>11\<close>, and the value
  stored as \<open>idfTag['constructor']\<close> is NaN, where the claim gives
  \<open>max(1e-8, ln(0.5 / 2.5)) = 1e-8\<close>.\<close>

theorem idf_of_constructor_is_NaN:
  "totalDocs (the (general (snd (snd (IDB_buildIndices noKeywords specBuildTrieTree clockAfter 0
                      ''papers'' True [''id'', ''questions'', ''keywords''] demoConstructor)))
                    (''bm25_'' @ ''papers''))) = 2
   \<and> tagAppeared (the (general (snd (snd (IDB_buildIndices noKeywords specBuildTrieTree
                      clockAfter 0 ''papers'' True [''id'', ''questions'', ''keywords'']
                      demoConstructor))) (''bm25_'' @ ''papers'')))
     = [(''constructor'', Str ''function Object() { [native code] }11'')]
   \<and> idfTag (the (general (snd (snd (IDB_buildIndices noKeywords specBuildTrieTree
                      clockAfter 0 ''papers'' True [''id'', ''questions'', ''keywords'']
                      demoConstructor))) (''bm25_'' @ ''papers'')))
     = [(''constructor'', NaN)]
   \<and> max (1 / 10 ^ 8) (ln ((real 2 - real 2 + 0.5) / (real 2 + 0.5))) = (1 / 10 ^ 8 :: real)"
proof -
  have "idfOf 2 2 = 1 / 10 ^ 8" by (rule idfOf_all_documents)
  then have m: "max (1 / 10 ^ 8) (ln ((real 2 - real 2 + 0.5) / (real 2 + 0.5)))
                = (1 / 10 ^ 8 :: real)"
    unfolding idfOf_def .
  show ?thesis
    unfolding general_demoConstructorIndexed [unfolded demoConstructorIndexed_def] option.sel
      bm25_constructor
    using m by simp
qed

section \<open>Field weights in the relevance score\<close>

lemma map_of_foldl_setProp:
  assumes "map_of m ''__proto__'' = None"
  shows "map_of (foldl (\<lambda>m k. setProp k v m) m ks) t
         = (if t \<in> set ks \<and> t \<noteq> ''__proto__'' then Some v else map_of m t)
         \<and> map_of (foldl (\<lambda>m k. setProp k v m) m ks) ''__proto__'' = None"
  using assms
proof (induction ks arbitrary: m)
  case Nil
  then show ?case by simp
next
  case (Cons k ks)
  have p: "map_of (setProp k v m) ''__proto__'' = None"
    using Cons.prems by (rule setProp_no_proto)
  show ?case
    using Cons.IH [OF p] by (auto simp: map_of_setProp_fresh [OF Cons.prems])
qed

lemma map_of_buildTagFreq:
  "map_of (buildTagFreq ts cs) t
   = (if t = ''__proto__'' then None
      else if t \<in> set cs then Some 4 else if t \<in> set ts then Some 1 else None)"
proof -
  let ?m = "foldl (\<lambda>m k. setProp k (1::real) m) [] ts"
  have a: "map_of ?m t = (if t \<in> set ts \<and> t \<noteq> ''__proto__'' then Some 1 else None)"
    and p: "map_of ?m ''__proto__'' = None"
    using map_of_foldl_setProp [of "[]" "1::real" ts t] by simp_all
  show ?thesis
    unfolding buildTagFreq_def using map_of_foldl_setProp [OF p, of "4::real" cs t] a by auto
qed

lemma keysOf_buildTagFreq:
  "keysOf (Some (buildTagFreq ts cs)) = (set ts \<union> set cs) - {''__proto__''}"
proof -
  have "fst ` set (buildTagFreq ts cs) = dom (map_of (buildTagFreq ts cs))"
    by (simp add: dom_map_of_conv_image_fst)
  also have "\<dots> = (set ts \<union> set cs) - {''__proto__''}"
    by (auto simp: map_of_buildTagFreq dom_def split: if_splits)
  finally show ?thesis by (simp add: keysOf_def)
qed

lemma scanCursor_forced:
  assumes "d' \<in> set (fst (scanCursor gen clock True excl docs n acc))"
  shows "\<exists>d m. d \<in> set docs \<and> d' = reindex gen excl (clock m) d"
  using scanCursor_stored [OF assms] by (auto simp: needsReindex_def)

lemma forced_tagsFrequency:
  assumes "d' \<in> set (fst (scanCursor gen clock True excl docs n acc))"
  shows "tagsFrequency d' = Some (buildTagFreq (orEmpty (tags d')) (orEmpty (categories d')))"
  using scanCursor_forced [OF assms] by (auto simp: orEmpty_def)

lemma freqAt_buildTagFreq:
  "freqAt (buildTagFreq ts cs) t
   = (if t = ''__proto__'' then 0 else if t \<in> set cs then 4 else if t \<in> set ts then 1 else 0)"
  by (simp add: freqAt_def map_of_buildTagFreq)

lemma bm25_saturation_pos:
  assumes "0 < l" "0 < k1" "0 \<le> b" "b \<le> 1" "1 \<le> dl"
  shows "0 < k1 * (1 - b + b * real dl / l)"
proof -
  have q: "0 \<le> b * real dl / l" using assms by simp
  have "0 < 1 - b + b * real dl / l"
  proof (cases "b = 1")
    case True
    then show ?thesis using assms by simp
  next
    case False
    then have "0 < 1 - b" using assms by simp
    with q show ?thesis by linarith
  qed
  then show ?thesis using assms(2) by simp
qed

lemma localTerm_Fin:
  assumes "l \<noteq> 0" "f + k1 * (1 - b + b * real dl / l) \<noteq> 0"
  shows "localTerm (Fin i) (Fin f) k1 b dl l = Fin (bm25Term i f k1 b dl l)"
  using assms by (simp add: localTerm_def bm25Term_def)

lemma localTerm_bm25:
  assumes "0 < l" "0 < k1" "0 \<le> b" "b \<le> 1" "1 \<le> dl" "0 \<le> f"
  shows "localTerm (Fin i) (Fin f) k1 b dl l = Fin (bm25Term i f k1 b dl l)"
proof -
  have "0 < f + k1 * (1 - b + b * real dl / l)"
    using bm25_saturation_pos [OF assms(1-5)] assms(6) by linarith
  then show ?thesis using assms(1) by (simp add: localTerm_Fin)
qed

lemma bm25Term_mono:
  fixes K k1 i f g :: real
  assumes K: "0 < K" and k: "0 < k1" and i: "0 \<le> i" and f: "0 \<le> f" "f \<le> g"
  shows "i * (f * (k1 + 1)) / (f + K) \<le> i * (g * (k1 + 1)) / (g + K)"
proof -
  have p1: "0 < f + K" using K f by linarith
  have p2: "0 < g + K" using K f by linarith
  note p = p1 p2
  have "f * (g + K) \<le> g * (f + K)" using K f by (simp add: algebra_simps)
  then have A: "f / (f + K) \<le> g / (g + K)" using p by (simp add: frac_le_eq field_simps)
  have c: "0 \<le> i * (k1 + 1)" using i k by simp
  have "(i * (k1 + 1)) * (f / (f + K)) \<le> (i * (k1 + 1)) * (g / (g + K))"
    using A c by (rule mult_left_mono)
  moreover have "i * (f * (k1 + 1)) / (f + K) = (i * (k1 + 1)) * (f / (f + K))" by simp
  moreover have "i * (g * (k1 + 1)) / (g + K) = (i * (k1 + 1)) * (g / (g + K))" by simp
  ultimately show ?thesis by (simp only:)
qed

lemma bm25Term_strict_mono:
  fixes K k1 i f g :: real
  assumes K: "0 < K" and k: "0 < k1" and i: "0 < i" and f: "0 \<le> f" "f < g"
  shows "i * (f * (k1 + 1)) / (f + K) < i * (g * (k1 + 1)) / (g + K)"
proof -
  have p1: "0 < f + K" using K f by linarith
  have p2: "0 < g + K" using K f by linarith
  note p = p1 p2
  have "f * (g + K) < g * (f + K)" using K f by (simp add: algebra_simps)
  then have A: "f / (f + K) < g / (g + K)" using p by (simp add: frac_less_eq field_simps)
  have c: "0 < i * (k1 + 1)" using i k by simp
  have "(i * (k1 + 1)) * (f / (f + K)) < (i * (k1 + 1)) * (g / (g + K))"
    using A c by (rule mult_strict_left_mono)
  moreover have "i * (f * (k1 + 1)) / (f + K) = (i * (k1 + 1)) * (f / (f + K))" by simp
  moreover have "i * (g * (k1 + 1)) / (g + K) = (i * (k1 + 1)) * (g / (g + K))" by simp
  ultimately show ?thesis by (simp only:)
qed

lemma foldl_jsadd_Fin:
  assumes "\<And>q. q \<in> set E \<Longrightarrow> T q = Fin (r q)"
  shows "foldl (\<lambda>score qi. jsadd score (T qi)) (Fin a) E = Fin (a + sum_list (map r E))"
  using assms
proof (induction E arbitrary: a)
  case Nil
  then show ?case by simp
next
  case (Cons q E)
  then show ?case by (simp add: add.assoc)
qed

lemma sum_list_strict:
  assumes "\<And>q. q \<in> set E \<Longrightarrow> (g q :: real) \<le> h q" and "t \<in> set E" and "g t < h t"
  shows "sum_list (map g E) < sum_list (map h E)"
  using assms
proof (induction E)
  case Nil
  then show ?case by simp
next
  case (Cons q E)
  show ?case
  proof (cases "q = t")
    case True
    have "sum_list (map g E) \<le> sum_list (map h E)"
      using Cons.prems(1) by (intro sum_list_mono) simp
    with True Cons.prems(3) show ?thesis by simp
  next
    case False
    with Cons.prems have "t \<in> set E" by simp
    then have "sum_list (map g E) < sum_list (map h E)"
      using Cons.IH Cons.prems by simp
    moreover have "g q \<le> h q" using Cons.prems(1) by simp
    ultimately show ?thesis by simp
  qed
qed

lemma docLengthOf_pos: "1 \<le> docLengthOf useTag d"
  by (auto simp: docLengthOf_def Let_def Suc_le_eq split: option.splits)

lemma orZero_freq_ordinary:
  "\<not> isProtoKey q \<Longrightarrow> orZero Fin (getProp freq q) = Fin (freqAt freq q)"
  by (simp add: getProp_ordinary orZero_def freqAt_def split: option.splits)

lemma orZero_idfTag_ordinary:
  assumes "\<not> isProtoKey q"
  shows "orZero (\<lambda>v. v) (getProp (idfTag (bm25Of bt docs)) q)
         = Fin (idfAt (idfTag (bm25Of bt docs)) q)"
  using assms
  by (simp add: getProp_ordinary orZero_def idfAt_def bm25Of_idfTag)

lemma docScore_Fin:
  assumes "0 < l" "0 < k1" "0 \<le> b" "b \<le> 1"
    and "\<And>q. 0 \<le> freqAt (orEmpty (tagsFrequency d)) q"
    and "\<forall>q \<in> set E. \<not> isProtoKey q"
  shows "docScore True (idfTag (bm25Of bt docs)) l k1 b E d
         = Fin (sum_list (map (\<lambda>q. bm25Term (idfAt (idfTag (bm25Of bt docs)) q)
                                     (freqAt (orEmpty (tagsFrequency d)) q) k1 b
                                     (docLengthOf True d) l) E))"
proof -
  let ?idf = "idfTag (bm25Of bt docs)"
  let ?freq = "orEmpty (tagsFrequency d)"
  let ?T = "\<lambda>qi. localTerm (orZero (\<lambda>v. v) (getProp ?idf qi)) (orZero Fin (getProp ?freq qi))
                    k1 b (docLengthOf True d) l"
  have "\<And>q. q \<in> set E \<Longrightarrow>
          ?T q = Fin (bm25Term (idfAt ?idf q) (freqAt ?freq q) k1 b (docLengthOf True d) l)"
  proof -
    fix q assume "q \<in> set E"
    then have o: "\<not> isProtoKey q" using assms(6) by blast
    show "?T q = Fin (bm25Term (idfAt ?idf q) (freqAt ?freq q) k1 b (docLengthOf True d) l)"
      unfolding orZero_freq_ordinary [OF o] orZero_idfTag_ordinary [OF o]
      using assms(1-5) docLengthOf_pos by (intro localTerm_bm25) auto
  qed
  then have "foldl (\<lambda>score qi. jsadd score (?T qi)) (Fin 0) E
             = Fin (0 + sum_list (map (\<lambda>q. bm25Term (idfAt ?idf q) (freqAt ?freq q) k1 b
                                           (docLengthOf True d) l) E))"
    by (rule foldl_jsadd_Fin)
  then show ?thesis
    by (simp add: docScore_def Let_def orEmpty_def)
qed

lemma idfTag_nonneg: "0 \<le> idfAt (idfTag (bm25Of bt docs)) q"
proof (cases "isProtoKey q")
  case True
  then show ?thesis
    using idf_of_inherited_name [OF True, of bt docs] by (auto simp: idfAt_def)
next
  case False
  have "(0::real) \<le> 1 / 10 ^ 8" by simp
  then have "0 \<le> idfOf N n" for N n using idfOf_floor [of N n] by (rule order_trans)
  then show ?thesis by (simp add: idfAt_def bm25Of_idfTag [OF False])
qed

lemma idfTag_pos:
  assumes "d \<in> set docs" "q \<in> keysOf (tagsFrequency d)" "\<not> isProtoKey q"
  shows "0 < idfAt (idfTag (bm25Of bt docs)) q"
proof -
  have "filter (\<lambda>d. q \<in> keysOf (tagsFrequency d)) docs \<noteq> []"
    using assms by (auto simp: filter_empty_conv)
  moreover have "(0::real) < 1 / 10 ^ 8" by simp
  then have "0 < idfOf N n" for N n using idfOf_floor [of N n] by (rule less_le_trans)
  ultimately show ?thesis by (simp add: idfAt_def bm25Of_idfTag [OF assms(3)])
qed

lemma averageDocLengthTag_pos:
  assumes "d \<in> set docs" "0 < optLength (tags d) + optLength (categories d)"
  shows "0 < averageDocLengthTag (bm25Of bt docs)"
proof -
  have "optLength (tags d) + optLength (categories d)
        \<le> sum_list (map (\<lambda>d. optLength (tags d) + optLength (categories d)) docs)"
    using assms(1) by (simp add: member_le_sum_list)
  then have "0 < sum_list (map (\<lambda>d. optLength (tags d) + optLength (categories d)) docs)"
    using assms(2) by linarith
  moreover have "docs \<noteq> []" using assms(1) by auto
  ultimately show ?thesis
    by (simp add: bm25Of_def bm25Body_def Let_def totalLengthTag_foldl_account
        totalDocsV_foldl_account emptyScan_def)
qed

lemma bm25Term_unfold:
  "bm25Term i f k1 b dl l = i * (f * (k1 + 1)) / (f + k1 * (1 - b + b * real dl / l))"
  by (simp add: bm25Term_def)

text \<open>For a query whose expanded terms do not name inherited members the scores are as
  claim C4 says. After an index rebuild (\<open>force = true\<close>) every stored document carries
  the tag frequencies 4 for each entry of its categories and 1 for each entry of its tags
  that is not a category as well. Let \<open>A\<close> and \<open>B\<close> be two stored documents with the
  same tag-space length and the same stored frequency for every term of the expanded
  query but \<open>t\<close>, where \<open>t\<close> is a category of \<open>A\<close> and a tag, not a category,
  of \<open>B\<close>. Then for parameters \<open>0 < k1\<close> and \<open>0 \<le> b \<le> 1\<close> (the defaults are 1.5
  and 0.75) the tag-space scores that \<open>_buildScore\<close> computes from the persisted cache
  are finite and the score of \<open>A\<close> is strictly greater than the score of \<open>B\<close>. The IDF
  of \<open>t\<close> and the average tag-space length are positive as a result of the rebuild.\<close>

lemma category_outranks_tag_ordinary_terms:
  assumes s': "s' = snd (snd (IDB_buildIndices gen bt clock n store True excl s))"
    and c: "c = the (general s' (''bm25_'' @ store))"
    and A: "A \<in> set (db s' store)" and B: "B \<in> set (db s' store)"
    and tA: "t \<in> set (orEmpty (categories A))"
    and tB: "t \<in> set (orEmpty (tags B))" "t \<notin> set (orEmpty (categories B))"
    and len: "docLengthOf True A = docLengthOf True B"
    and E: "t \<in> set E"
    and same: "\<forall>q \<in> set E. q \<noteq> t \<longrightarrow>
                 freqAt (orEmpty (tagsFrequency A)) q = freqAt (orEmpty (tagsFrequency B)) q"
    and k: "0 < k1" "0 \<le> b" "b \<le> 1"
    and ord: "\<forall>q \<in> set E. \<not> isProtoKey q"
  shows "(\<forall>d \<in> set (db s' store). \<forall>u. u \<noteq> ''__proto__'' \<longrightarrow>
            map_of (orEmpty (tagsFrequency d)) u
            = (if u \<in> set (orEmpty (categories d)) then Some 4
               else if u \<in> set (orEmpty (tags d)) then Some 1 else None))
         \<and> (\<exists>x y. docScore True (idfTag c) (averageDocLengthTag c) k1 b E A = Fin x
                  \<and> docScore True (idfTag c) (averageDocLengthTag c) k1 b E B = Fin y
                  \<and> y < x)"
proof
  let ?docs = "db s' store"
  have docs: "?docs = fst (scanCursor gen clock True excl (db s store) n emptyScan)"
    unfolding s' by (simp add: db_IDB_buildIndices)
  have freq: "\<And>d. d \<in> set ?docs \<Longrightarrow>
                tagsFrequency d
                = Some (buildTagFreq (orEmpty (tags d)) (orEmpty (categories d)))"
    unfolding docs by (rule forced_tagsFrequency)
  show "\<forall>d \<in> set ?docs. \<forall>u. u \<noteq> ''__proto__'' \<longrightarrow>
          map_of (orEmpty (tagsFrequency d)) u
          = (if u \<in> set (orEmpty (categories d)) then Some 4
             else if u \<in> set (orEmpty (tags d)) then Some 1 else None)"
  proof (intro ballI allI impI)
    fix d u assume d: "d \<in> set ?docs" and u: "u \<noteq> ''__proto__''"
    have "orEmpty (tagsFrequency d) = buildTagFreq (orEmpty (tags d)) (orEmpty (categories d))"
      unfolding freq [OF d] by (simp add: orEmpty_def)
    then show "map_of (orEmpty (tagsFrequency d)) u
               = (if u \<in> set (orEmpty (categories d)) then Some 4
                  else if u \<in> set (orEmpty (tags d)) then Some 1 else None)"
      using u by (simp only: map_of_buildTagFreq if_False)
  qed
  have cc: "c = bm25Of bt ?docs"
    unfolding c s' by (simp only: general_IDB_buildIndices_bm25Of option.sel)
  have ot: "\<not> isProtoKey t" using ord E by blast
  then have np: "t \<noteq> ''__proto__''" by auto
  let ?idf = "idfTag c" and ?l = "averageDocLengthTag c"
  let ?fA = "orEmpty (tagsFrequency A)" and ?fB = "orEmpty (tagsFrequency B)"
  let ?dl = "docLengthOf True A"
  have fA: "?fA = buildTagFreq (orEmpty (tags A)) (orEmpty (categories A))"
    using freq [OF A] by (simp add: orEmpty_def)
  have fB: "?fB = buildTagFreq (orEmpty (tags B)) (orEmpty (categories B))"
    using freq [OF B] by (simp add: orEmpty_def)
  have nnA: "\<And>q. 0 \<le> freqAt ?fA q" unfolding fA by (simp add: freqAt_buildTagFreq)
  have nnB: "\<And>q. 0 \<le> freqAt ?fB q" unfolding fB by (simp add: freqAt_buildTagFreq)
  have f4: "freqAt ?fA t = 4" unfolding fA using tA np by (simp add: freqAt_buildTagFreq)
  have f1: "freqAt ?fB t = 1" unfolding fB using tB np by (simp add: freqAt_buildTagFreq)
  have "0 < optLength (categories A)"
    using tA by (cases "categories A") (auto simp: optLength_def orEmpty_def)
  then have "0 < optLength (tags A) + optLength (categories A)"
    by simp
  then have l: "0 < ?l" unfolding cc using A by (intro averageDocLengthTag_pos)
  have "t \<in> keysOf (tagsFrequency A)"
    using freq [OF A] tA np by (simp add: keysOf_buildTagFreq)
  then have it: "0 < idfAt ?idf t" unfolding cc using A ot by (intro idfTag_pos)
  have inn: "\<And>q. 0 \<le> idfAt ?idf q" unfolding cc by (rule idfTag_nonneg)
  let ?K = "k1 * (1 - b + b * real ?dl / ?l)"
  have K: "0 < ?K" using l k docLengthOf_pos by (intro bm25_saturation_pos)
  let ?tA = "\<lambda>q. bm25Term (idfAt ?idf q) (freqAt ?fA q) k1 b ?dl ?l"
  let ?tB = "\<lambda>q. bm25Term (idfAt ?idf q) (freqAt ?fB q) k1 b ?dl ?l"
  have sA: "docScore True ?idf ?l k1 b E A = Fin (sum_list (map ?tA E))"
    unfolding cc using l k nnA ord unfolding cc by (intro docScore_Fin)
  have sB: "docScore True ?idf ?l k1 b E B = Fin (sum_list (map ?tB E))"
    unfolding cc len using l k nnB ord unfolding cc by (intro docScore_Fin)
  have le: "\<And>q. q \<in> set E \<Longrightarrow> ?tB q \<le> ?tA q"
  proof -
    fix q assume q: "q \<in> set E"
    show "?tB q \<le> ?tA q"
    proof (cases "q = t")
      case True
      have "idfAt ?idf t * (1 * (k1 + 1)) / (1 + ?K) \<le> idfAt ?idf t * (4 * (k1 + 1)) / (4 + ?K)"
        using K k(1) inn by (intro bm25Term_mono) simp_all
      then show ?thesis unfolding bm25Term_unfold True f4 f1 .
    next
      case False
      then show ?thesis using same q by simp
    qed
  qed
  have "idfAt ?idf t * (1 * (k1 + 1)) / (1 + ?K) < idfAt ?idf t * (4 * (k1 + 1)) / (4 + ?K)"
    using K k(1) it by (intro bm25Term_strict_mono) simp_all
  then have lt: "?tB t < ?tA t" unfolding bm25Term_unfold f4 f1 .
  have "sum_list (map ?tB E) < sum_list (map ?tA E)"
    using le E lt by (rule sum_list_strict)
  with sA sB
  show "\<exists>x y. docScore True ?idf ?l k1 b E A = Fin x
            \<and> docScore True ?idf ?l k1 b E B = Fin y \<and> y < x"
    by blast
qed

lemma category_outranks_tag_instance:
  "\<exists>x y.
        docScore True
          (idfTag (the (general (snd (snd (IDB_buildIndices noKeywords specBuildTrieTree
                     clockAfter 0 ''papers'' True [] demoPair))) (''bm25_'' @ ''papers''))))
          (averageDocLengthTag (the (general (snd (snd (IDB_buildIndices noKeywords
                     specBuildTrieTree clockAfter 0 ''papers'' True [] demoPair)))
                     (''bm25_'' @ ''papers''))))
          1.5 0.75 [''math'']
          (reindex noKeywords [] (clockAfter 0) (demoDoc ''a'' [] [''math''])) = Fin x
        \<and> docScore True
          (idfTag (the (general (snd (snd (IDB_buildIndices noKeywords specBuildTrieTree
                     clockAfter 0 ''papers'' True [] demoPair))) (''bm25_'' @ ''papers''))))
          (averageDocLengthTag (the (general (snd (snd (IDB_buildIndices noKeywords
                     specBuildTrieTree clockAfter 0 ''papers'' True [] demoPair)))
                     (''bm25_'' @ ''papers''))))
          1.5 0.75 [''math'']
          (reindex noKeywords [] (clockAfter 1) (demoDoc ''b'' [''math''] [])) = Fin y
        \<and> y < x"
proof -
  let ?s' = "snd (snd (IDB_buildIndices noKeywords specBuildTrieTree clockAfter 0 ''papers''
                         True [] demoPair))"
  let ?A = "reindex noKeywords [] (clockAfter 0) (demoDoc ''a'' [] [''math''])"
  let ?B = "reindex noKeywords [] (clockAfter 1) (demoDoc ''b'' [''math''] [])"
  have d: "db ?s' ''papers'' = [?A, ?B]"
    by (simp add: db_IDB_buildIndices demoPair_def needsReindex_def Let_def)
  have A: "?A \<in> set (db ?s' ''papers'')" and B: "?B \<in> set (db ?s' ''papers'')"
    unfolding d by simp_all
  have tA: "''math'' \<in> set (orEmpty (categories ?A))"
    by (simp add: orEmpty_def demoDoc_def)
  have tB: "''math'' \<in> set (orEmpty (tags ?B))" "''math'' \<notin> set (orEmpty (categories ?B))"
    by (simp_all add: orEmpty_def demoDoc_def)
  have len: "docLengthOf True ?A = docLengthOf True ?B"
    by (simp add: docLengthOf_def demoDoc_def)
  have E: "''math'' \<in> set [''math'']" by simp
  have same: "\<forall>q \<in> set [''math'']. q \<noteq> ''math'' \<longrightarrow>
      freqAt (orEmpty (tagsFrequency ?A)) q = freqAt (orEmpty (tagsFrequency ?B)) q"
    by simp
  have k: "(0::real) < 1.5" "(0::real) \<le> 0.75" "(0.75::real) \<le> 1" by simp_all
  have ord: "\<forall>q \<in> set [''math'']. \<not> isProtoKey q"
    using not_isProtoKey_math by simp
  from category_outranks_tag_ordinary_terms [OF refl refl A B tA tB len E same k ord]
  show ?thesis by blast
qed

lemma storedScore_constructor:
  "storedScore specLoadTrieTree [] ''papers'' [''constructor''] True 1.5 0.75
     demoConstructorIndexed constructorA = NaN"
  "storedScore specLoadTrieTree [] ''papers'' [''constructor''] True 1.5 0.75
     demoConstructorIndexed constructorB = NaN"
proof -
  have e: "expandQuery (specLoadTrieTree [''constructor''] 1) [''constructor'']
           = [''constructor'']"
    by (simp add: expandQuery_def specLoadTrieTree_def set_add_def)
  have dl: "docLengthOf True constructorA = 1" "docLengthOf True constructorB = 1"
    by (simp_all add: docLengthOf_def constructorA_def constructorB_def demoDoc_def)
  show "storedScore specLoadTrieTree [] ''papers'' [''constructor''] True 1.5 0.75
          demoConstructorIndexed constructorA = NaN"
    unfolding storedScore_def general_demoConstructorIndexed option.case if_True if_False
      not_True_eq_False bm25_constructor e
    by (simp add: docScore_def dl tagsFrequency_constructor getProp_def orZero_def
        localTerm_def)
  show "storedScore specLoadTrieTree [] ''papers'' [''constructor''] True 1.5 0.75
          demoConstructorIndexed constructorB = NaN"
    unfolding storedScore_def general_demoConstructorIndexed option.case if_True if_False
      not_True_eq_False bm25_constructor e
    by (simp add: docScore_def dl tagsFrequency_constructor getProp_def orZero_def
        localTerm_def)
qed

lemma collect_step_none:
  assumes "\<forall>d \<in> set docs. \<not> jsgt (f d) th"
  shows "foldl (\<lambda>scores doc.
                (let score = f doc
                 in if jsgt score th then setProp (docId doc) score scores else scores))
              sc docs = sc"
  using assms by (induction docs arbitrary: sc) (simp_all add: Let_def)

lemma IDB_buildScore_stored:
  "fst (IDB_buildScore lt eo key store q useTag k1 b th s)
   = sort_key (\<lambda>e. rankKey (snd e))
       (Object_entries
          (foldl (\<lambda>scores doc.
                    (let score = storedScore lt eo store q useTag k1 b s doc
                     in if jsgt score th then setProp (docId doc) score scores else scores))
             [] (db s store)))"
  by (cases "general s (''bm25_'' @ store)")
     (simp_all add: IDB_buildScore_def storedScore_def collectScores_def Let_def
        del: append.simps)

lemma IDB_search_miss:
  assumes "\<not> lru_has (store, keywords, useTag, k1, b, th) (cache s)"
  shows "result (fst (IDB_search lt eo store q keywords useTag count page k1 b th s))
         = fetchPage (db s store)
             (Some (fst (IDB_buildScore lt eo (store, keywords, useTag, k1, b, th) store
                           keywords useTag k1 b th s)))
             (nat (max (case count of None \<Rightarrow> 1 | Some c \<Rightarrow> c) 1))
             (nat (max (case page of None \<Rightarrow> 0 | Some p \<Rightarrow> p) 0))"
  using assms by (simp add: IDB_search_def Let_def)

lemma cache_demoConstructorIndexed: "cache demoConstructorIndexed = []"
  by (simp add: demoConstructorIndexed_def demoConstructor_def)

text \<open>Claim C4 on the store of the two papers \<open>a\<close>, with the category
  \<open>constructor\<close>, and \<open>b\<close>, with the tag \<open>constructor\<close>, which agree in every
  other scoring input. The index rebuild gives the term the frequency 4 in \<open>a\<close> and 1
  in \<open>b\<close>. The idf that it stores for the term is NaN, so the tag-space score of
  either paper for the query \<open>constructor\<close> is NaN: the score of \<open>a\<close> is not greater
  than the score of \<open>b\<close>, no score passes the threshold, and the search returns
  nothing.\<close>

theorem category_constructor_scores_NaN:
  "db demoConstructorIndexed ''papers'' = [constructorA, constructorB]
   \<and> categories constructorA = Some [''constructor''] \<and> tags constructorA = Some []
   \<and> tags constructorB = Some [''constructor''] \<and> categories constructorB = Some []
   \<and> tagsFrequency constructorA = Some [(''constructor'', 4)]
   \<and> tagsFrequency constructorB = Some [(''constructor'', 1)]
   \<and> storedScore specLoadTrieTree [] ''papers'' [''constructor''] True 1.5 0.75
        demoConstructorIndexed constructorA = NaN
   \<and> storedScore specLoadTrieTree [] ''papers'' [''constructor''] True 1.5 0.75
        demoConstructorIndexed constructorB = NaN
   \<and> result (fst (IDB_search specLoadTrieTree [] ''papers'' ''constructor'' [''constructor'']
                     True None None 1.5 0.75 (1 / 10 ^ 10) demoConstructorIndexed)) = []"
proof -
  let ?key = "(''papers'', [''constructor''], True, 1.5::real, 0.75::real, 1 / 10 ^ 10 :: real)"
  have miss: "\<not> lru_has ?key (cache demoConstructorIndexed)"
    by (simp add: lru_has_def cache_demoConstructorIndexed)
  have none: "\<forall>d \<in> set [constructorA, constructorB].
                \<not> jsgt (storedScore specLoadTrieTree [] ''papers'' [''constructor''] True 1.5
                           0.75 demoConstructorIndexed d) (1 / 10 ^ 10)"
    by (simp only: list.set ball_simps storedScore_constructor jsgt.simps simp_thms)
  have L: "fst (IDB_buildScore specLoadTrieTree [] ?key ''papers'' [''constructor''] True 1.5
                  0.75 (1 / 10 ^ 10) demoConstructorIndexed) = []"
    unfolding IDB_buildScore_stored db_demoConstructorIndexed collect_step_none [OF none]
    by simp
  have r: "result (fst (IDB_search specLoadTrieTree [] ''papers'' ''constructor''
                          [''constructor''] True None None 1.5 0.75 (1 / 10 ^ 10)
                          demoConstructorIndexed)) = []"
    unfolding IDB_search_miss [OF miss] L db_demoConstructorIndexed
    by (simp add: fetchPage_def idAt_def constructorA_def constructorB_def demoDoc_def)
  have f: "categories constructorA = Some [''constructor'']" "tags constructorA = Some []"
    "tags constructorB = Some [''constructor'']" "categories constructorB = Some []"
    by (simp_all add: constructorA_def constructorB_def demoDoc_def)
  show ?thesis
    using db_demoConstructorIndexed f tagsFrequency_constructor storedScore_constructor r
    by simp
qed

section \<open>Pagination over the cached ranked list\<close>

lemma concat_index_range:
  assumes "\<And>i. g i = (if i < length L then h (L ! i) else [])"
  shows "concat (map g [a ..< a + c]) = concat (map h (take c (drop a L)))"
proof (induction c)
  case 0
  then show ?case by simp
next
  case (Suc c)
  show ?case
  proof (cases "a + c < length L")
    case True
    then have "take (Suc c) (drop a L) = take c (drop a L) @ [L ! (a + c)]"
      by (simp add: take_Suc_conv_app_nth)
    with True Suc assms show ?thesis by simp
  next
    case False
    then have "take (Suc c) (drop a L) = take c (drop a L)" by simp
    with False Suc assms show ?thesis by simp
  qed
qed

lemma fetchPage_slice:
  assumes "db_get docs [] = None"
  shows "fetchPage docs (Some L) c p = documentsOf docs (rankedSlice L c p)"
proof -
  have "[p * c ..< (p + 1) * c] = [p * c ..< p * c + c]" by (simp add: algebra_simps)
  moreover have "concat (map (\<lambda>i. case db_get docs (idAt (Some L) i) of
                        None \<Rightarrow> []
                      | Some currentResult \<Rightarrow> [snd (sanitizeIndices currentResult True True)])
                   [p * c ..< p * c + c])
        = concat (map (\<lambda>e. case db_get docs (fst e) of
                        None \<Rightarrow> []
                      | Some d \<Rightarrow> [snd (sanitizeIndices d True True)])
                    (take c (drop (p * c) L)))"
    using assms by (intro concat_index_range) (simp add: idAt_def)
  ultimately show ?thesis
    by (simp only: fetchPage_def documentsOf_def rankedSlice_def)
qed

lemma snd_IDB_buildScore:
  "snd (IDB_buildScore lt eo key store q useTag k1 b th s)
   = s\<lparr>cache := lru_set key (fst (IDB_buildScore lt eo key store q useTag k1 b th s))
                    (cache s)\<rparr>"
  by (simp add: IDB_buildScore_def Let_def split: prod.splits)

lemma map_of_lru_set: "map_of (lru_set k v c) k = Some v"
  by (simp add: lru_set_def)

lemma IDB_search_result:
  "result (fst (IDB_search lt eo store q keywords useTag count page k1 b th s))
   = fetchPage (db s store) (Some (rankedList lt eo store keywords useTag k1 b th s))
       (clampCount count) (clampPage page)"
  by (auto simp: IDB_search_def Let_def rankedList_def lru_has_def lru_get_def clampCount_def
      clampPage_def split: option.splits)

lemma IDB_search_totalPages:
  "totalPages (fst (IDB_search lt eo store q keywords useTag count page k1 b th s))
   = nat \<lceil>real (length (rankedList lt eo store keywords useTag k1 b th s))
          / real (clampCount count)\<rceil>"
  by (auto simp: IDB_search_def Let_def rankedList_def lru_has_def lru_get_def clampCount_def
      split: option.splits)

lemma IDB_search_state:
  "snd (IDB_search lt eo store q keywords useTag count page k1 b th s)
   = snd (IDB_search lt eo store q' keywords useTag count' page' k1 b th s)"
  by (simp add: IDB_search_def Let_def)

lemma IDB_search_cached:
  "map_of (cache (snd (IDB_search lt eo store q keywords useTag count page k1 b th s)))
     (store, keywords, useTag, k1, b, th)
   = Some (rankedList lt eo store keywords useTag k1 b th s)"
  by (auto simp: IDB_search_def Let_def rankedList_def lru_has_def lru_get_def
      snd_IDB_buildScore map_of_lru_set split: option.splits)

lemma general_IDB_search [simp]:
  "general (snd (IDB_search lt eo store q keywords useTag count page k1 b th s)) = general s"
  by (simp add: IDB_search_def Let_def snd_IDB_buildScore)

lemma rankedList_IDB_search:
  "rankedList lt eo store keywords useTag k1 b th
     (snd (IDB_search lt eo store q keywords useTag count page k1 b th s))
   = rankedList lt eo store keywords useTag k1 b th s"
  by (simp add: rankedList_def [of _ _ _ _ _ _ _ _ "snd _"] IDB_search_cached)

lemma distinct_IDB_buildScore:
  "distinct (map fst (fst (IDB_buildScore lt eo key store q useTag k1 b th s)))"
  by (simp add: IDB_buildScore_def Let_def distinct_map_sort_key distinct_Object_entries
      split: prod.splits)

lemma clampCount_pos: "1 \<le> clampCount count"
  by (simp add: clampCount_def)

lemma slices_disjoint:
  assumes "distinct (map fst L)" "p \<noteq> p'"
  shows "set (map fst (rankedSlice L c p)) \<inter> set (map fst (rankedSlice L c p')) = {}"
proof -
  have d: "\<And>a a'. a + c \<le> a' \<Longrightarrow>
             set (map fst (take c (drop a L))) \<inter> set (map fst (take c (drop a' L))) = {}"
  proof -
    fix a a' :: nat assume le: "a + c \<le> a'"
    have "take c (drop a L) = drop a (take (a + c) L)"
      by (simp add: drop_take)
    then have "set (take c (drop a L)) \<subseteq> set (take (a + c) L)"
      by (simp add: set_drop_subset)
    then have 1: "set (map fst (take c (drop a L))) \<subseteq> set (map fst (take (a + c) L))"
      by auto
    have "drop a' L = drop (a' - (a + c)) (drop (a + c) L)" using le by simp
    then have "set (take c (drop a' L)) \<subseteq> set (drop (a + c) L)"
      by (metis set_take_subset set_drop_subset subset_trans)
    then have 2: "set (map fst (take c (drop a' L))) \<subseteq> set (map fst (drop (a + c) L))"
      by auto
    have "distinct (map fst (take (a + c) L) @ map fst (drop (a + c) L))"
      using assms(1) by (simp flip: map_append)
    then have "set (map fst (take (a + c) L)) \<inter> set (map fst (drop (a + c) L)) = {}"
      by (simp only: distinct_append)
    with 1 2 show "set (map fst (take c (drop a L))) \<inter> set (map fst (take c (drop a' L))) = {}"
      by blast
  qed
  show ?thesis
  proof (cases "p < p'")
    case True
    then have "Suc p \<le> p'" by simp
    then have "Suc p * c \<le> p' * c" by (rule mult_le_mono1)
    then have "p * c + c \<le> p' * c" by (simp add: algebra_simps)
    then show ?thesis unfolding rankedSlice_def by (rule d)
  next
    case False
    with assms(2) have "Suc p' \<le> p" by simp
    then have "Suc p' * c \<le> p * c" by (rule mult_le_mono1)
    then have "p' * c + c \<le> p * c" by (simp add: algebra_simps)
    then have "set (map fst (take c (drop (p' * c) L)))
               \<inter> set (map fst (take c (drop (p * c) L))) = {}" by (rule d)
    then show ?thesis unfolding rankedSlice_def by blast
  qed
qed

text \<open>Claim C5, as amended. The state that a search leaves, and so the score cache and its
  key, does not depend on the page size, the page index or the raw query. For a store
  that holds no document under the empty id: two successive searches that differ only in
  the page index use the same ranked list \<open>L\<close> (the cached one, or the one the first
  search computes); with the page size clamped to at least 1 and the page index to at
  least 0, each returns the sanitised stored documents of the slice
  \<open>[page * size, (page + 1) * size)\<close> of \<open>L\<close>, and both report
  \<open>totalPages = ceil(length L / size)\<close>. The slices of distinct pages share no id when
  the ids of \<open>L\<close> are distinct, as they are for every list that a search computes.\<close>

theorem pagination_shares_ranked_list:
  assumes "db_get (db s store) [] = None"
  shows "(let L = rankedList lt eo store kws useTag k1 b th s;
              c = clampCount count;
              r1 = IDB_search lt eo store q kws useTag count pageA k1 b th s;
              r2 = IDB_search lt eo store q kws useTag count pageB k1 b th (snd r1)
          in snd r1 = snd (IDB_search lt eo store q' kws useTag count' page' k1 b th s)
             \<and> 1 \<le> c
             \<and> result (fst r1) = documentsOf (db s store) (rankedSlice L c (clampPage pageA))
             \<and> result (fst r2) = documentsOf (db s store) (rankedSlice L c (clampPage pageB))
             \<and> totalPages (fst r1) = nat \<lceil>real (length L) / real c\<rceil>
             \<and> totalPages (fst r2) = nat \<lceil>real (length L) / real c\<rceil>
             \<and> (distinct (map fst L) \<and> clampPage pageA \<noteq> clampPage pageB \<longrightarrow>
                   set (map fst (rankedSlice L c (clampPage pageA)))
                   \<inter> set (map fst (rankedSlice L c (clampPage pageB))) = {})
             \<and> (map_of (cache s) (store, kws, useTag, k1, b, th) = None \<longrightarrow>
                   distinct (map fst L)))"
proof -
  let ?L = "rankedList lt eo store kws useTag k1 b th s"
  let ?r1 = "IDB_search lt eo store q kws useTag count pageA k1 b th s"
  let ?r2 = "IDB_search lt eo store q kws useTag count pageB k1 b th (snd ?r1)"
  have e2: "db_get (db (snd ?r1) store) [] = None" using assms by simp
  have a: "snd ?r1 = snd (IDB_search lt eo store q' kws useTag count' page' k1 b th s)"
    by (rule IDB_search_state)
  have b: "result (fst ?r1)
           = documentsOf (db s store) (rankedSlice ?L (clampCount count) (clampPage pageA))"
    unfolding IDB_search_result by (rule fetchPage_slice [OF assms])
  have c: "result (fst ?r2)
           = documentsOf (db s store) (rankedSlice ?L (clampCount count) (clampPage pageB))"
    unfolding IDB_search_result rankedList_IDB_search
    using fetchPage_slice [OF e2] by simp
  have d: "totalPages (fst ?r1) = nat \<lceil>real (length ?L) / real (clampCount count)\<rceil>"
    by (rule IDB_search_totalPages)
  have e: "totalPages (fst ?r2) = nat \<lceil>real (length ?L) / real (clampCount count)\<rceil>"
    unfolding IDB_search_totalPages rankedList_IDB_search ..
  have f: "distinct (map fst ?L) \<and> clampPage pageA \<noteq> clampPage pageB \<longrightarrow>
             set (map fst (rankedSlice ?L (clampCount count) (clampPage pageA)))
             \<inter> set (map fst (rankedSlice ?L (clampCount count) (clampPage pageB))) = {}"
    using slices_disjoint by blast
  have g: "map_of (cache s) (store, kws, useTag, k1, b, th) = None \<longrightarrow>
             distinct (map fst ?L)"
    by (simp add: rankedList_def distinct_IDB_buildScore)
  show ?thesis
    unfolding Let_def using a b c d e f g clampCount_pos by blast
qed

lemma rankedList_demoEmptyId:
  "rankedList specLoadTrieTree [] ''papers'' [''zz''] True 1.5 0.75 (1 / 10 ^ 10) demoEmptyId
   = []"
  by (simp add: rankedList_def demoEmptyId_def IDB_buildScore_def Let_def expandQuery_def
      specLoadTrieTree_def set_add_def collectScores_def docScore_def docLengthOf_def
      demoDoc_def orZero_def getProp_def Object_prototype_def localTerm_def)

text \<open>Claim C5 as stated fails on a store that holds a paper with the empty id: the
  ranked list of a query without match is empty (\<open>totalPages = 0\<close>), the loop of
  \<open>_search\<close> looks up the id \<open>''\<close> for every index beyond the list, and both page 0
  and page 1 return that paper.\<close>

theorem page_beyond_ranked_list_returns_empty_id:
  "rankedList specLoadTrieTree [] ''papers'' [''zz''] True 1.5 0.75 (1 / 10 ^ 10) demoEmptyId
   = []
   \<and> map docId (result (fst (IDB_search specLoadTrieTree [] ''papers'' ''zz'' [''zz''] True
                               None (Some 0) 1.5 0.75 (1 / 10 ^ 10) demoEmptyId))) = [[]]
   \<and> map docId (result (fst (IDB_search specLoadTrieTree [] ''papers'' ''zz'' [''zz''] True
                               None (Some 1) 1.5 0.75 (1 / 10 ^ 10)
                               (snd (IDB_search specLoadTrieTree [] ''papers'' ''zz'' [''zz'']
                                       True None (Some 0) 1.5 0.75 (1 / 10 ^ 10)
                                       demoEmptyId))))) = [[]]
   \<and> totalPages (fst (IDB_search specLoadTrieTree [] ''papers'' ''zz'' [''zz''] True
                               None (Some 0) 1.5 0.75 (1 / 10 ^ 10) demoEmptyId)) = 0"
proof -
  have d: "db demoEmptyId ''papers'' = [demoDoc [] [''math''] []]"
    by (simp add: demoEmptyId_def)
  have f: "\<And>p. map docId (fetchPage [demoDoc [] [''math''] []] (Some []) (Suc 0) p) = [[]]"
    by (simp add: fetchPage_def idAt_def demoDoc_def sanitizeIndices_def Let_def)
  show ?thesis
    unfolding IDB_search_result IDB_search_totalPages rankedList_IDB_search db_IDB_search
      rankedList_demoEmptyId d
    by (simp add: f clampCount_def clampPage_def)
qed

theorem pagination_shares_ranked_list_witness:
  "db_get (db demoState ''questions'') [] = None
   \<and> rankedList specLoadTrieTree [] ''questions'' [''math''] True 1.5 0.75 (1 / 10 ^ 10)
        demoState = [(''q1'', Fin 1)]
   \<and> result (fst (IDB_search specLoadTrieTree [] ''questions'' ''math'' [''math''] True
                     (Some 1) (Some 0) 1.5 0.75 (1 / 10 ^ 10) demoState))
     = documentsOf (db demoState ''questions'')
         (rankedSlice (rankedList specLoadTrieTree [] ''questions'' [''math''] True 1.5 0.75
                         (1 / 10 ^ 10) demoState) (clampCount (Some 1)) (clampPage (Some 0)))
   \<and> totalPages (fst (IDB_search specLoadTrieTree [] ''questions'' ''math'' [''math''] True
                     (Some 1) (Some 1) 1.5 0.75 (1 / 10 ^ 10)
                     (snd (IDB_search specLoadTrieTree [] ''questions'' ''math'' [''math'']
                             True (Some 1) (Some 0) 1.5 0.75 (1 / 10 ^ 10) demoState))))
     = nat \<lceil>real (length (rankedList specLoadTrieTree [] ''questions'' [''math''] True 1.5
                               0.75 (1 / 10 ^ 10) demoState)) / real (clampCount (Some 1))\<rceil>"
proof -
  have h: "db_get (db demoState ''questions'') [] = None"
    by (simp add: demoState_def demoDoc_def)
  have r: "rankedList specLoadTrieTree [] ''questions'' [''math''] True 1.5 0.75 (1 / 10 ^ 10)
             demoState = [(''q1'', Fin 1)]"
    by (simp add: rankedList_def demoState_def)
  note T = pagination_shares_ranked_list [OF h, where lt = specLoadTrieTree and eo = "[]"
      and kws = "[''math'']" and useTag = True and ?k1.0 = "1.5" and b = "0.75"
      and th = "1 / 10 ^ 10" and q = "''math''" and q' = "''math''" and count = "Some 1"
      and count' = "Some 1" and pageA = "Some 0" and pageB = "Some 1" and page' = "Some 0",
      unfolded Let_def]
  from T h r show ?thesis by blast
qed
section \<open>Soft-deleted documents in the index and in the ranking\<close>

lemma keys_setProp:
  "map_of m ''__proto__'' = None \<Longrightarrow>
   fst ` set (setProp key v m) = fst ` set m \<union> ({key} - {''__proto__''})"
  by (auto simp: setProp_def dom_update)

lemma keys_collect_step:
  assumes "map_of sc ''__proto__'' = None"
  shows "fst ` set (foldl (\<lambda>scores doc.
                (let score = f doc
                 in if jsgt score th then setProp (docId doc) score scores else scores))
              sc docs)
   = fst ` set sc \<union> (docId ` {d \<in> set docs. jsgt (f d) th} - {''__proto__''})"
  using assms
proof (induction docs arbitrary: sc)
  case Nil
  then show ?case by simp
next
  case (Cons d docs)
  show ?case
  proof (cases "jsgt (f d) th")
    case False
    then show ?thesis using Cons.IH [OF Cons.prems] by (auto simp: Let_def)
  next
    case True
    have p: "map_of (setProp (docId d) (f d) sc) ''__proto__'' = None"
      using Cons.prems by (rule setProp_no_proto)
    show ?thesis
      using True Cons.IH [OF p] by (auto simp: Let_def keys_setProp [OF Cons.prems])
  qed
qed

lemma keys_Object_entries: "fst ` set (Object_entries obj) = fst ` set obj"
  by (simp add: set_Object_entries dom_clearjunk)

lemma ranked_ids:
  "fst ` set (fst (IDB_buildScore loadTrieTree emptyObject key store q useTag k1 b th s))
   = docId ` {d \<in> set (db s store).
               jsgt (storedScore loadTrieTree emptyObject store q useTag k1 b s d) th}
     - {''__proto__''}"
  unfolding IDB_buildScore_stored
  by (simp add: keys_Object_entries keys_collect_step)

lemma map_deleted_scanCursor:
  "map deleted (fst (scanCursor gen clock force excl docs n acc)) = map deleted docs"
  by (induction docs arbitrary: n acc) (simp_all add: Let_def)

lemma general_refresh:
  assumes "store = STORE_KEY_QUESTIONS \<or> store = STORE_KEY_PAPERS"
  shows "general (snd (refreshSearchIndices gen bt clock force s)) (''bm25_'' @ store)
         = Some (bm25Of bt (db (snd (refreshSearchIndices gen bt clock force s)) store))"
  using assms
  by (auto simp: refreshSearchIndices_def Let_def general_IDB_buildIndices db_IDB_buildIndices
      bm25Of_def STORE_KEY_QUESTIONS_def STORE_KEY_PAPERS_def)

lemma cache_refresh [simp]: "cache (snd (refreshSearchIndices gen bt clock force s)) = []"
  by (simp add: refreshSearchIndices_def Let_def lru_clear_def)

lemma db_refresh_scan:
  assumes "store = STORE_KEY_QUESTIONS \<or> store = STORE_KEY_PAPERS"
  shows "\<exists>excl n. db (snd (refreshSearchIndices gen bt clock force s)) store
          = fst (scanCursor gen clock force excl (db s store) n emptyScan)"
  using assms db_refreshSearchIndices db_refreshSearchIndices_papers by metis

lemma count_member_pos:
  "d \<in> set docs \<Longrightarrow> P d \<Longrightarrow> 1 \<le> length (filter P docs)"
  by (induction docs) auto

lemma fetchPage_member:
  assumes "i < length L" "db_get docs (fst (L ! i)) = Some d" "p * c \<le> i" "i < (p + 1) * c"
  shows "snd (sanitizeIndices d True True) \<in> set (fetchPage docs (Some L) c p)"
proof -
  have "i \<in> set [p * c ..< (p + 1) * c]" using assms(3,4) by simp
  moreover have "snd (sanitizeIndices d True True)
      \<in> set (case db_get docs (idAt (Some L) i) of
               None \<Rightarrow> []
             | Some currentResult \<Rightarrow> [snd (sanitizeIndices currentResult True True)])"
    using assms(1,2) by (simp add: idAt_def)
  ultimately show ?thesis
    unfolding fetchPage_def set_concat set_map by blast
qed

lemma page_of_index:
  fixes c i :: nat
  assumes "1 \<le> c"
  shows "(i div c) * c \<le> i \<and> i < (i div c + 1) * c"
proof -
  have "0 < c" using assms by simp
  then have "i mod c < c" by simp
  moreover have "i = (i div c) * c + i mod c" by simp
  ultimately show ?thesis by (simp add: algebra_simps) (metis add.commute mult.commute
        div_mult_mod_eq nat_add_left_cancel_less)
qed

lemma ranked_document_returned:
  assumes "map_of (cache s) (store, kws, useTag, k1, b, th) = None"
    and "jsgt (storedScore lt eo store kws useTag k1 b s d) th"
    and "docId d \<noteq> ''__proto__''"
    and "db_get (db s store) (docId d) = Some d"
  shows "\<exists>page. snd (sanitizeIndices d True True)
           \<in> set (result (fst (IDB_search lt eo store q kws useTag count (Some page) k1 b th
                                 s)))"
proof -
  let ?L = "fst (IDB_buildScore lt eo (store, kws, useTag, k1, b, th) store kws useTag k1 b th
                   s)"
  let ?c = "clampCount count"
  have L: "rankedList lt eo store kws useTag k1 b th s = ?L"
    using assms(1) by (simp add: rankedList_def)
  have "d \<in> set (db s store)" using assms(4) by (rule db_get_Some_mem)
  then have "docId d \<in> fst ` set ?L"
    unfolding ranked_ids using assms(2,3) by blast
  then obtain i where i: "i < length ?L" "fst (?L ! i) = docId d"
    by (auto simp: in_set_conv_nth)
  have g: "db_get (db s store) (fst (?L ! i)) = Some d" using i(2) assms(4) by simp
  have r: "(i div ?c) * ?c \<le> i \<and> i < (i div ?c + 1) * ?c"
    using clampCount_pos by (rule page_of_index)
  have "snd (sanitizeIndices d True True) \<in> set (fetchPage (db s store) (Some ?L) ?c (i div ?c))"
    using i(1) g r by (intro fetchPage_member) simp_all
  moreover have "clampPage (Some (int (i div ?c))) = i div ?c"
    by (simp add: clampPage_def)
  ultimately have "snd (sanitizeIndices d True True)
      \<in> set (result (fst (IDB_search lt eo store q kws useTag count (Some (int (i div ?c))) k1 b
                            th s)))"
    unfolding IDB_search_result L by simp
  then show ?thesis by blast
qed

text \<open>Claim C2, as amended. \<open>refreshSearchIndices(true)\<close> keeps every stored document
  of the questions and of the papers with its deletion flag, and counts every one of them,
  soft-deleted or not: \<open>totalDocs\<close> is the number of stored documents, and a stored
  document \<open>d\<close> is among the documents counted in \<open>wordAppeared[t]\<close> for every key
  \<open>t\<close> of its keyword frequencies and in \<open>tagAppeared[t]\<close> for every tag and category
  \<open>t\<close> of it, where \<open>t\<close> is not the name of a member that a plain object inherits.
  The score cache is empty afterwards. Among the ids other than \<open>__proto__\<close>, the ranked
  list that a search then computes holds exactly the ids of the stored documents whose score
  exceeds the threshold, and the search returns such a document (the one that the store
  holds under its id), sanitised, on the page of its rank: the deletion flag is not
  consulted.\<close>

theorem deleted_documents_counted_and_ranked:
  assumes st: "store = STORE_KEY_QUESTIONS \<or> store = STORE_KEY_PAPERS"
    and s1: "s1 = snd (refreshSearchIndices gen bt clock True s)"
    and c: "c = the (general s1 (''bm25_'' @ store))"
    and d: "d \<in> set (db s1 store)"
  shows "map docId (db s1 store) = map docId (db s store)
         \<and> map deleted (db s1 store) = map deleted (db s store)
         \<and> totalDocs c = length (db s store)
         \<and> (\<forall>t. t \<in> keysOf (keywordsFrequency d) \<and> \<not> isProtoKey t \<longrightarrow>
               1 \<le> length (filter (\<lambda>x. t \<in> keysOf (keywordsFrequency x)) (db s1 store))
               \<and> map_of (wordAppeared c) t
                 = Some (Num (length (filter (\<lambda>x. t \<in> keysOf (keywordsFrequency x))
                                        (db s1 store)))))
         \<and> (\<forall>t. t \<in> set (orEmpty (tags d)) \<union> set (orEmpty (categories d))
                 \<and> \<not> isProtoKey t \<longrightarrow>
               1 \<le> length (filter (\<lambda>x. t \<in> keysOf (tagsFrequency x)) (db s1 store))
               \<and> map_of (tagAppeared c) t
                 = Some (Num (length (filter (\<lambda>x. t \<in> keysOf (tagsFrequency x))
                                        (db s1 store)))))
         \<and> cache s1 = []
         \<and> fst ` set (fst (IDB_buildScore lt eo key store kws useTag k1 b th s1))
             - {''__proto__''}
           = docId ` {x \<in> set (db s1 store).
                        jsgt (storedScore lt eo store kws useTag k1 b s1 x) th}
             - {''__proto__''}
         \<and> (jsgt (storedScore lt eo store kws useTag k1 b s1 d) th
              \<and> docId d \<noteq> ''__proto__'' \<and> db_get (db s1 store) (docId d) = Some d \<longrightarrow>
              (\<exists>page. snd (sanitizeIndices d True True)
                 \<in> set (result (fst (IDB_search lt eo store q kws useTag count (Some page) k1 b
                                       th s1)))))"
proof -
  from db_refresh_scan [OF st, of gen bt clock True s] obtain excl n
    where docs: "db s1 store = fst (scanCursor gen clock True excl (db s store) n emptyScan)"
    unfolding s1 by blast
  have cc: "c = bm25Of bt (db s1 store)"
    unfolding c s1 by (simp only: general_refresh [OF st] option.sel)
  have ids: "map docId (db s1 store) = map docId (db s store)"
    unfolding docs by (rule scanCursor_ids)
  have del: "map deleted (db s1 store) = map deleted (db s store)"
    unfolding docs by (rule map_deleted_scanCursor)
  have tot: "totalDocs c = length (db s store)"
    unfolding cc bm25Of_totalDocs using ids by (metis length_map)
  have tf: "keysOf (tagsFrequency d)
            = (set (orEmpty (tags d)) \<union> set (orEmpty (categories d))) - {''__proto__''}"
    using forced_tagsFrequency [of d gen clock excl "db s store" n emptyScan] d
    unfolding docs by (simp add: keysOf_buildTagFreq)
  have w: "\<And>t. t \<in> keysOf (keywordsFrequency d) \<Longrightarrow>
             1 \<le> length (filter (\<lambda>x. t \<in> keysOf (keywordsFrequency x)) (db s1 store))"
    using d by (rule count_member_pos)
  have g: "\<And>t. t \<in> keysOf (tagsFrequency d) \<Longrightarrow>
             1 \<le> length (filter (\<lambda>x. t \<in> keysOf (tagsFrequency x)) (db s1 store))"
    using d by (rule count_member_pos)
  have w': "\<And>t. t \<in> keysOf (keywordsFrequency d) \<Longrightarrow> \<not> isProtoKey t \<Longrightarrow>
              map_of (wordAppeared c) t
              = Some (Num (length (filter (\<lambda>x. t \<in> keysOf (keywordsFrequency x))
                                     (db s1 store))))"
  proof -
    fix t assume "t \<in> keysOf (keywordsFrequency d)" and o: "\<not> isProtoKey t"
    then have "length (filter (\<lambda>x. t \<in> keysOf (keywordsFrequency x)) (db s1 store)) \<noteq> 0"
      using w [of t] by linarith
    then show "map_of (wordAppeared c) t
              = Some (Num (length (filter (\<lambda>x. t \<in> keysOf (keywordsFrequency x))
                                     (db s1 store))))"
      unfolding cc bm25Of_word [OF o] by (simp only: if_False)
  qed
  have g': "\<And>t. t \<in> keysOf (tagsFrequency d) \<Longrightarrow> \<not> isProtoKey t \<Longrightarrow>
              map_of (tagAppeared c) t
              = Some (Num (length (filter (\<lambda>x. t \<in> keysOf (tagsFrequency x)) (db s1 store))))"
  proof -
    fix t assume "t \<in> keysOf (tagsFrequency d)" and o: "\<not> isProtoKey t"
    then have "length (filter (\<lambda>x. t \<in> keysOf (tagsFrequency x)) (db s1 store)) \<noteq> 0"
      using g [of t] by linarith
    then show "map_of (tagAppeared c) t
              = Some (Num (length (filter (\<lambda>x. t \<in> keysOf (tagsFrequency x)) (db s1 store))))"
      unfolding cc bm25Of_tag [OF o] by (simp only: if_False)
  qed
  have ca: "cache s1 = []" unfolding s1 by simp
  show ?thesis
  proof (intro conjI allI impI)
    show "map docId (db s1 store) = map docId (db s store)" by (rule ids)
    show "map deleted (db s1 store) = map deleted (db s store)" by (rule del)
    show "totalDocs c = length (db s store)" by (rule tot)
    show "cache s1 = []" by (rule ca)
    show "fst ` set (fst (IDB_buildScore lt eo key store kws useTag k1 b th s1))
            - {''__proto__''}
          = docId ` {x \<in> set (db s1 store).
                       jsgt (storedScore lt eo store kws useTag k1 b s1 x) th}
            - {''__proto__''}"
      unfolding ranked_ids by (rule Diff_idemp)
  next
    fix t assume "t \<in> keysOf (keywordsFrequency d) \<and> \<not> isProtoKey t"
    then have a: "t \<in> keysOf (keywordsFrequency d)" and o: "\<not> isProtoKey t" by simp_all
    from a show "1 \<le> length (filter (\<lambda>x. t \<in> keysOf (keywordsFrequency x)) (db s1 store))"
      by (rule w)
    from a o show "map_of (wordAppeared c) t
           = Some (Num (length (filter (\<lambda>x. t \<in> keysOf (keywordsFrequency x)) (db s1 store))))"
      by (rule w')
  next
    fix t assume "t \<in> set (orEmpty (tags d)) \<union> set (orEmpty (categories d))
                  \<and> \<not> isProtoKey t"
    then have m: "t \<in> set (orEmpty (tags d)) \<union> set (orEmpty (categories d))"
      and o: "\<not> isProtoKey t" by simp_all
    from o have "t \<noteq> ''__proto__''" by auto
    with m have a: "t \<in> keysOf (tagsFrequency d)" unfolding tf by simp
    from a show "1 \<le> length (filter (\<lambda>x. t \<in> keysOf (tagsFrequency x)) (db s1 store))"
      by (rule g)
    from a o show "map_of (tagAppeared c) t
           = Some (Num (length (filter (\<lambda>x. t \<in> keysOf (tagsFrequency x)) (db s1 store))))"
      by (rule g')
  next
    assume h: "jsgt (storedScore lt eo store kws useTag k1 b s1 d) th
               \<and> docId d \<noteq> ''__proto__'' \<and> db_get (db s1 store) (docId d) = Some d"
    have "map_of (cache s1) (store, kws, useTag, k1, b, th) = None"
      unfolding ca by simp
    then show "\<exists>page. snd (sanitizeIndices d True True)
                 \<in> set (result (fst (IDB_search lt eo store q kws useTag count (Some page) k1 b
                                       th s1)))"
      using h by (intro ranked_document_returned) simp_all
  qed
qed

lemma scanCursor_ticks:
  "fst (snd (scanCursor gen clock force excl docs n acc))
   = n + length (filter (needsReindex force) docs)"
  by (induction docs arbitrary: n acc) (simp_all add: Let_def)

lemma ticks_IDB_buildIndices:
  "fst (snd (IDB_buildIndices gen bt clock n store force excl s))
   = n + length (filter (needsReindex force) (db s store))"
  by (simp add: IDB_buildIndices_def Let_def scanCursor_ticks)

lemma not_isArrayIndex_math: "\<not> isArrayIndex ''math''"
  by (simp add: isArrayIndex_def isDigit_def)

lemma db_demoDeleted_refreshed:
  "db (snd (refreshSearchIndices noKeywords specBuildTrieTree clockAfter True demoDeleted))
     ''papers'' = [demoDeletedIndexed]"
proof -
  have "db (snd (refreshSearchIndices noKeywords specBuildTrieTree clockAfter True demoDeleted))
          STORE_KEY_PAPERS = [demoDeletedIndexed]"
    unfolding db_refreshSearchIndices_papers ticks_IDB_buildIndices
    by (simp add: demoDeleted_def demoDeletedIndexed_def STORE_KEY_PAPERS_def
        STORE_KEY_QUESTIONS_def needsReindex_def Let_def)
  then show ?thesis by (simp add: STORE_KEY_PAPERS_def)
qed

lemma general_demoDeleted_refreshed:
  "general (snd (refreshSearchIndices noKeywords specBuildTrieTree clockAfter True demoDeleted))
     (''bm25_'' @ ''papers'') = Some (bm25Of specBuildTrieTree [demoDeletedIndexed])"
  using general_refresh [of STORE_KEY_PAPERS noKeywords specBuildTrieTree clockAfter True
      demoDeleted]
  unfolding STORE_KEY_PAPERS_def db_demoDeleted_refreshed by simp

lemma tagsFrequency_demoDeletedIndexed:
  "tagsFrequency demoDeletedIndexed = Some [(''math'', 1)]"
  by (simp add: demoDeletedIndexed_def demoDoc_def buildTagFreq_def setProp_def)

lemma tagAppearedV_demo:
  "tagAppearedV (foldl account emptyScan [demoDeletedIndexed]) = [(''math'', Num 1)]"
  by (simp add: account_def emptyScan_def countKeys_def Object_keys_def
      Object_entries_single not_isArrayIndex_math tagsFrequency_demoDeletedIndexed bump_def
      getProp_def Object_prototype_def increment_def setProp_def)

lemma bm25_demo:
  "idfTag (bm25Of specBuildTrieTree [demoDeletedIndexed]) = [(''math'', Fin (1 / 10 ^ 8))]"
  "averageDocLengthTag (bm25Of specBuildTrieTree [demoDeletedIndexed]) = 1"
  "trieTags (bm25Of specBuildTrieTree [demoDeletedIndexed]) = [''math'']"
  "trieSizeTags (bm25Of specBuildTrieTree [demoDeletedIndexed]) = 1"
  "totalDocs (bm25Of specBuildTrieTree [demoDeletedIndexed]) = 1"
  "tagAppeared (bm25Of specBuildTrieTree [demoDeletedIndexed]) = [(''math'', Num 1)]"
proof -
  have t: "totalDocsV (foldl account emptyScan [demoDeletedIndexed]) = 1"
    by (simp add: account_def emptyScan_def)
  have l: "totalLengthTag (foldl account emptyScan [demoDeletedIndexed]) = 1"
    by (simp add: account_def emptyScan_def demoDeletedIndexed_def
        demoDoc_def optLength_def)
  have "idfValue 1 (Num 1) = Fin (idfOf 1 1)" by (rule idfValue_count) simp
  then have i: "idfValue 1 (Num 1) = Fin (1 / 10 ^ 8)"
    by (simp only: idfOf_all_documents)
  show "idfTag (bm25Of specBuildTrieTree [demoDeletedIndexed]) = [(''math'', Fin (1 / 10 ^ 8))]"
    unfolding bm25Of_def bm25Body_def Let_def Bm25Cache.simps tagAppearedV_demo t
    by (simp only: Object_entries_single [OF not_isArrayIndex_math] list.map fst_conv snd_conv i)
  show "averageDocLengthTag (bm25Of specBuildTrieTree [demoDeletedIndexed]) = 1"
    unfolding bm25Of_def bm25Body_def Let_def Bm25Cache.simps t l by simp
  show "trieTags (bm25Of specBuildTrieTree [demoDeletedIndexed]) = [''math'']"
    unfolding bm25Of_def bm25Body_def Let_def Bm25Cache.simps tagAppearedV_demo
    by (simp add: specBuildTrieTree_def Object_keys_def
        Object_entries_single [OF not_isArrayIndex_math])
  show "trieSizeTags (bm25Of specBuildTrieTree [demoDeletedIndexed]) = 1"
    unfolding bm25Of_def bm25Body_def Let_def Bm25Cache.simps tagAppearedV_demo
    by (simp add: specBuildTrieTree_def Object_keys_def
        Object_entries_single [OF not_isArrayIndex_math])
  show "totalDocs (bm25Of specBuildTrieTree [demoDeletedIndexed]) = 1"
    by (simp add: bm25Of_totalDocs)
  show "tagAppeared (bm25Of specBuildTrieTree [demoDeletedIndexed]) = [(''math'', Num 1)]"
    unfolding bm25Of_def bm25Body_def Let_def Bm25Cache.simps tagAppearedV_demo ..
qed

lemma storedScore_demo:
  "storedScore specLoadTrieTree [] ''papers'' [''math''] True 1.5 0.75
     (snd (refreshSearchIndices noKeywords specBuildTrieTree clockAfter True demoDeleted))
     demoDeletedIndexed = Fin (1 / 10 ^ 8)"
proof -
  have e: "expandQuery (specLoadTrieTree [''math''] 1) [''math''] = [''math'']"
    by (simp add: expandQuery_def specLoadTrieTree_def set_add_def)
  have dl: "docLengthOf True demoDeletedIndexed = 1"
    by (simp add: docLengthOf_def demoDeletedIndexed_def demoDoc_def)
  show ?thesis
    unfolding storedScore_def general_demoDeleted_refreshed option.case if_True if_False
      not_True_eq_False bm25_demo e
    by (simp add: docScore_def dl tagsFrequency_demoDeletedIndexed getProp_def orZero_def
        localTerm_def)
qed

lemma singleton_keys_first:
  assumes "fst ` set L = {k}"
  shows "L \<noteq> [] \<and> fst (L ! 0) = k"
proof -
  from assms have ne: "L \<noteq> []" by auto
  then have "L ! 0 \<in> set L" by simp
  then have "fst (L ! 0) \<in> fst ` set L" by (rule imageI)
  with assms ne show ?thesis by simp
qed

text \<open>Claim C2 as stated fails on a store whose only paper is soft-deleted and has the tag
  \<open>math\<close>: after \<open>refreshSearchIndices(true)\<close> the document count is 1, \<open>math\<close> has
  document frequency 1, and a tag search for \<open>math\<close> returns the deleted paper.\<close>

theorem deleted_document_counted_and_returned:
  "map deleted (db (snd (refreshSearchIndices noKeywords specBuildTrieTree clockAfter True
                           demoDeleted)) ''papers'') = [Some True]
   \<and> totalDocs (the (general (snd (refreshSearchIndices noKeywords specBuildTrieTree clockAfter
                                     True demoDeleted)) (''bm25_'' @ ''papers''))) = 1
   \<and> map_of (tagAppeared (the (general (snd (refreshSearchIndices noKeywords specBuildTrieTree
                                     clockAfter True demoDeleted)) (''bm25_'' @ ''papers''))))
        ''math'' = Some (Num 1)
   \<and> map docId (result (fst (IDB_search specLoadTrieTree [] ''papers'' ''math'' [''math'']
                               True None None 1.5 0.75 (1 / 10 ^ 10)
                               (snd (refreshSearchIndices noKeywords specBuildTrieTree
                                       clockAfter True demoDeleted))))) = [''p1'']"
proof -
  let ?s1 = "snd (refreshSearchIndices noKeywords specBuildTrieTree clockAfter True demoDeleted)"
  let ?key = "(''papers'', [''math''], True, 1.5::real, 0.75::real, 1 / 10 ^ 10 :: real)"
  let ?L = "fst (IDB_buildScore specLoadTrieTree [] ?key ''papers'' [''math''] True 1.5 0.75
                   (1 / 10 ^ 10) ?s1)"
  have del: "deleted demoDeletedIndexed = Some True"
    by (simp add: demoDeletedIndexed_def)
  have id: "docId demoDeletedIndexed = ''p1''"
    by (simp add: demoDeletedIndexed_def demoDoc_def)
  have "fst ` set ?L = docId ` {x \<in> set [demoDeletedIndexed].
          jsgt (storedScore specLoadTrieTree [] ''papers'' [''math''] True 1.5 0.75 ?s1 x)
            (1 / 10 ^ 10)} - {''__proto__''}"
    unfolding ranked_ids db_demoDeleted_refreshed ..
  also have "\<dots> = {''p1''}"
    using storedScore_demo id by auto
  finally have L: "?L \<noteq> [] \<and> fst (?L ! 0) = ''p1''" by (rule singleton_keys_first)
  have miss: "\<not> lru_has ?key (cache ?s1)" by (simp add: lru_has_def)
  have "result (fst (IDB_search specLoadTrieTree [] ''papers'' ''math'' [''math''] True None None
                       1.5 0.75 (1 / 10 ^ 10) ?s1))
        = [snd (sanitizeIndices demoDeletedIndexed True True)]"
    unfolding IDB_search_miss [OF miss] db_demoDeleted_refreshed
    using L id by (simp add: fetchPage_def idAt_def)
  moreover have "docId (snd (sanitizeIndices demoDeletedIndexed True True)) = ''p1''"
    using id by (simp add: sanitizeIndices_def Let_def)
  ultimately show ?thesis
    unfolding db_demoDeleted_refreshed general_demoDeleted_refreshed option.sel bm25_demo
    using del by simp
qed

theorem deleted_documents_counted_and_ranked_witness:
  "demoDeletedIndexed
     \<in> set (db (snd (refreshSearchIndices noKeywords specBuildTrieTree clockAfter True
                      demoDeleted)) STORE_KEY_PAPERS)
   \<and> deleted demoDeletedIndexed = Some True
   \<and> map deleted (db (snd (refreshSearchIndices noKeywords specBuildTrieTree clockAfter True
                             demoDeleted)) STORE_KEY_PAPERS)
     = map deleted (db demoDeleted STORE_KEY_PAPERS)
   \<and> totalDocs (the (general (snd (refreshSearchIndices noKeywords specBuildTrieTree clockAfter
                                     True demoDeleted)) (''bm25_'' @ STORE_KEY_PAPERS)))
     = length (db demoDeleted STORE_KEY_PAPERS)
   \<and> length (db demoDeleted STORE_KEY_PAPERS) = 1
   \<and> ''math'' \<in> set (orEmpty (tags demoDeletedIndexed))
   \<and> \<not> isProtoKey ''math''
   \<and> map_of (tagAppeared (the (general (snd (refreshSearchIndices noKeywords specBuildTrieTree
                                     clockAfter True demoDeleted))
                                  (''bm25_'' @ STORE_KEY_PAPERS)))) ''math''
     = Some (Num (length (filter (\<lambda>x. ''math'' \<in> keysOf (tagsFrequency x))
                            (db (snd (refreshSearchIndices noKeywords specBuildTrieTree
                                        clockAfter True demoDeleted)) STORE_KEY_PAPERS))))
   \<and> jsgt (storedScore specLoadTrieTree [] STORE_KEY_PAPERS [''math''] True 1.5 0.75
             (snd (refreshSearchIndices noKeywords specBuildTrieTree clockAfter True
                     demoDeleted)) demoDeletedIndexed) (1 / 10 ^ 10)
   \<and> (\<exists>page. snd (sanitizeIndices demoDeletedIndexed True True)
         \<in> set (result (fst (IDB_search specLoadTrieTree [] STORE_KEY_PAPERS ''math''
                               [''math''] True None (Some page) 1.5 0.75 (1 / 10 ^ 10)
                               (snd (refreshSearchIndices noKeywords specBuildTrieTree
                                       clockAfter True demoDeleted))))))"
proof -
  let ?s1 = "snd (refreshSearchIndices noKeywords specBuildTrieTree clockAfter True demoDeleted)"
  have st: "STORE_KEY_PAPERS = STORE_KEY_QUESTIONS \<or> STORE_KEY_PAPERS = STORE_KEY_PAPERS"
    by simp
  have dbs: "db ?s1 STORE_KEY_PAPERS = [demoDeletedIndexed]"
    using db_demoDeleted_refreshed by (simp add: STORE_KEY_PAPERS_def)
  have d: "demoDeletedIndexed \<in> set (db ?s1 STORE_KEY_PAPERS)"
    unfolding dbs by simp
  have del: "deleted demoDeletedIndexed = Some True"
    by (simp add: demoDeletedIndexed_def)
  have len: "length (db demoDeleted STORE_KEY_PAPERS) = 1"
    by (simp add: demoDeleted_def STORE_KEY_PAPERS_def)
  have tg: "''math'' \<in> set (orEmpty (tags demoDeletedIndexed))"
    by (simp add: demoDeletedIndexed_def demoDoc_def orEmpty_def)
  then have tg': "''math'' \<in> set (orEmpty (tags demoDeletedIndexed))
                    \<union> set (orEmpty (categories demoDeletedIndexed))
                  \<and> \<not> isProtoKey ''math''"
    using not_isProtoKey_math by simp
  have sc: "jsgt (storedScore specLoadTrieTree [] STORE_KEY_PAPERS [''math''] True 1.5 0.75 ?s1
                    demoDeletedIndexed) (1 / 10 ^ 10)"
    unfolding STORE_KEY_PAPERS_def storedScore_demo by simp
  have g: "db_get (db ?s1 STORE_KEY_PAPERS) (docId demoDeletedIndexed) = Some demoDeletedIndexed"
    unfolding dbs by simp
  have i: "docId demoDeletedIndexed \<noteq> ''__proto__''"
    by (simp add: demoDeletedIndexed_def demoDoc_def)
  note T = deleted_documents_counted_and_ranked [OF st refl refl d,
      where lt = specLoadTrieTree and eo = "[]" and kws = "[''math'']" and useTag = True
        and ?k1.0 = "1.5" and b = "0.75" and th = "1 / 10 ^ 10" and q = "''math''"
        and count = None
        and key = "(STORE_KEY_PAPERS, [''math''], True, 1.5, 0.75, 1 / 10 ^ 10)"]
  from T tg' have A: "map_of (tagAppeared (the (general ?s1 (''bm25_'' @ STORE_KEY_PAPERS))))
                        ''math''
     = Some (Num (length (filter (\<lambda>x. ''math'' \<in> keysOf (tagsFrequency x))
                            (db ?s1 STORE_KEY_PAPERS))))"
    by blast
  from T sc i g have B: "\<exists>page. snd (sanitizeIndices demoDeletedIndexed True True)
         \<in> set (result (fst (IDB_search specLoadTrieTree [] STORE_KEY_PAPERS ''math''
                               [''math''] True None (Some page) 1.5 0.75 (1 / 10 ^ 10) ?s1)))"
    by blast
  from T have C: "map deleted (db ?s1 STORE_KEY_PAPERS)
                  = map deleted (db demoDeleted STORE_KEY_PAPERS)"
    and D: "totalDocs (the (general ?s1 (''bm25_'' @ STORE_KEY_PAPERS)))
            = length (db demoDeleted STORE_KEY_PAPERS)"
    by blast+
  from A B C D d del len tg not_isProtoKey_math sc show ?thesis by blast
qed

end
